theory Spec2Isabelle
  imports Main
begin

section \<open>mail-cannon: batch creation of warehouse orders\<close>

text \<open>
  A shallow embedding of \<^verbatim>\<open>mail_cannon.py\<close>. Python strings are modelled as HOL
  strings whose characters stand for the code points U+0000 to U+00FF. Exceptions are
  values of \<open>py_exc\<close>, and a function that may raise returns \<open>py_exc + 'a\<close>.
\<close>

subsection \<open>Python values and exceptions\<close>

datatype py_exc =
    SystemExit string
  | KeyError string
  | ValueError
  | TypeError
  | AttributeError
  | OSError
  | TimeoutError
  | JSONDecodeError
  | OtherError

text \<open>
  A parsed JSON document. A finite float is kept as mantissa and binary exponent, which is
  all the program ever looks at (its truth value). An object is the list of its items in
  insertion order, as a Python dict keeps them.
\<close>

datatype json =
    JNull
  | JBool bool
  | JInt int
  | JFloat int int
  | JStr string
  | JArr "json list"
  | JObj "(string \<times> json) list"

text \<open>Sequencing of computations that may raise.\<close>

definition thenE :: "py_exc + 'a \<Rightarrow> ('a \<Rightarrow> py_exc + 'b) \<Rightarrow> py_exc + 'b" where
  "thenE m f = (case m of Inl e \<Rightarrow> Inl e | Inr a \<Rightarrow> f a)"

subsection \<open>\<^verbatim>\<open>str.strip\<close>, \<^verbatim>\<open>int\<close> and decimal rendering\<close>

text \<open>
  \<^verbatim>\<open>int(s)\<close> skips the C whitespace characters and the non-ASCII spaces (NEL and NBSP
  below U+0100); \<^verbatim>\<open>str.strip()\<close> strips every character with \<^verbatim>\<open>str.isspace\<close>, which
  also holds for the separators U+001C to U+001F.
\<close>

definition int_isspace :: "char \<Rightarrow> bool" where
  "int_isspace c =
     (let n = (of_char c :: nat) in (9 \<le> n \<and> n \<le> 13) \<or> n = 32 \<or> n = 133 \<or> n = 160)"

definition py_isspace :: "char \<Rightarrow> bool" where
  "py_isspace c = (int_isspace c \<or> (let n = (of_char c :: nat) in 28 \<le> n \<and> n \<le> 31))"

definition strip :: "string \<Rightarrow> string" where
  "strip s = rev (dropWhile py_isspace (rev (dropWhile py_isspace s)))"

definition int_strip :: "string \<Rightarrow> string" where
  "int_strip s = rev (dropWhile int_isspace (rev (dropWhile int_isspace s)))"

definition is_digit :: "char \<Rightarrow> bool" where
  "is_digit c = (let n = (of_char c :: nat) in 48 \<le> n \<and> n \<le> 57)"

definition digit_val :: "char \<Rightarrow> nat" where
  "digit_val c = of_char c - 48"

text \<open>Digits after the first one; a single underscore may stand between two digits.\<close>

fun parse_digits :: "nat \<Rightarrow> string \<Rightarrow> nat option" where
  "parse_digits acc [] = Some acc"
| "parse_digits acc (c # cs) =
     (if is_digit c then parse_digits (acc * 10 + digit_val c) cs
      else if c = CHR ''_'' then
        (case cs of
           [] \<Rightarrow> None
         | d # ds \<Rightarrow> if is_digit d then parse_digits (acc * 10 + digit_val d) ds else None)
      else None)"

definition parse_unsigned :: "string \<Rightarrow> nat option" where
  "parse_unsigned s =
     (case s of
        [] \<Rightarrow> None
      | c # cs \<Rightarrow> if is_digit c then parse_digits (digit_val c) cs else None)"

text \<open>The default of \<^verbatim>\<open>sys.int_max_str_digits\<close>: longer literals raise \<^verbatim>\<open>ValueError\<close>.\<close>

definition int_max_str_digits :: nat where
  "int_max_str_digits = 4300"

definition py_int :: "string \<Rightarrow> int option" where
  "py_int s =
     (let t = int_strip s in
      if length (filter is_digit t) > int_max_str_digits then None
      else case t of
        [] \<Rightarrow> None
      | c # r \<Rightarrow>
          if c = CHR ''+'' then map_option int (parse_unsigned r)
          else if c = CHR ''-'' then map_option (\<lambda>n. - int n) (parse_unsigned r)
          else map_option int (parse_unsigned t))"

definition digit_char :: "nat \<Rightarrow> char" where
  "digit_char d = ''0123456789'' ! d"

fun show_nat :: "nat \<Rightarrow> string" where
  "show_nat n =
     (if n < 10 then [digit_char n]
      else show_nat (n div 10) @ [digit_char (n mod 10)])"

declare show_nat.simps [simp del]

definition show_int :: "int \<Rightarrow> string" where
  "show_int i = (if i < 0 then CHR ''-'' # show_nat (nat (- i)) else show_nat (nat i))"

subsection \<open>Constants\<close>

definition ADDRESS_COLUMNS :: "string list" where
  "ADDRESS_COLUMNS =
     [''first_name'', ''last_name'', ''email'', ''line_1'', ''line_2'',
      ''city'', ''state'', ''postal_code'', ''country'']"

definition REQUIRED_ADDRESS_COLUMNS :: "string list" where
  "REQUIRED_ADDRESS_COLUMNS =
     [''first_name'', ''email'', ''line_1'', ''city'', ''state'', ''postal_code'', ''country'']"

subsection \<open>Rows\<close>

text \<open>
  A row of \<^verbatim>\<open>csv.DictReader\<close>: a dict from column names to cells, where a cell is a
  string, or \<^verbatim>\<open>None\<close> for a column that a short record does not reach.
\<close>

type_synonym row = "string \<rightharpoonup> string option"

text \<open>\<^verbatim>\<open>row.get(col) or ""\<close>\<close>

definition get_or_empty :: "row \<Rightarrow> string \<Rightarrow> string" where
  "get_or_empty r col = (case r col of Some (Some s) \<Rightarrow> s | _ \<Rightarrow> [])"

text \<open>\<^verbatim>\<open>row[col].strip()\<close>\<close>

definition item_strip :: "row \<Rightarrow> string \<Rightarrow> py_exc + string" where
  "item_strip r col =
     (case r col of
        None \<Rightarrow> Inl (KeyError col)
      | Some None \<Rightarrow> Inl AttributeError
      | Some (Some s) \<Rightarrow> Inr (strip s))"

subsection \<open>Row validation\<close>

definition missing_msg :: "int \<Rightarrow> string \<Rightarrow> string" where
  "missing_msg row_num col =
     ''Row '' @ show_int row_num @ '': '' @ ''missing required field ''
       @ [CHR 0x27] @ col @ [CHR 0x27]"

definition negative_msg :: "int \<Rightarrow> string \<Rightarrow> string" where
  "negative_msg row_num sku =
     ''Row '' @ show_int row_num @ '': '' @ ''negative quantity in ''
       @ [CHR 0x27] @ sku @ [CHR 0x27]"

definition non_integer_msg :: "int \<Rightarrow> string \<Rightarrow> string \<Rightarrow> string" where
  "non_integer_msg row_num raw sku =
     ''Row '' @ show_int row_num @ '': '' @ ''non-integer value ''
       @ [CHR 0x27] @ raw @ [CHR 0x27] @ '' in '' @ [CHR 0x27] @ sku @ [CHR 0x27]"

definition no_items_msg :: "int \<Rightarrow> string" where
  "no_items_msg row_num = ''Row '' @ show_int row_num @ '': '' @ ''no SKUs with quantity > 0''"

text \<open>The loop over \<^verbatim>\<open>REQUIRED_ADDRESS_COLUMNS\<close>, threading \<^verbatim>\<open>errors\<close>.\<close>

fun check_required :: "row \<Rightarrow> int \<Rightarrow> string list \<Rightarrow> string list \<Rightarrow> string list" where
  "check_required r row_num [] errors = errors"
| "check_required r row_num (col # cols) errors =
     (if strip (get_or_empty r col) = []
      then check_required r row_num cols (errors @ [missing_msg row_num col])
      else check_required r row_num cols errors)"

text \<open>The loop over the SKU columns, threading \<^verbatim>\<open>errors\<close> and \<^verbatim>\<open>has_items\<close>.\<close>

fun check_skus ::
  "row \<Rightarrow> int \<Rightarrow> string list \<Rightarrow> string list \<times> bool \<Rightarrow> string list \<times> bool" where
  "check_skus r row_num [] st = st"
| "check_skus r row_num (sku # skus) (errors, has_items) =
     (let raw = strip (get_or_empty r sku) in
      if raw = [] then check_skus r row_num skus (errors, has_items)
      else case py_int raw of
        None \<Rightarrow>
          check_skus r row_num skus (errors @ [non_integer_msg row_num raw sku], has_items)
      | Some qty \<Rightarrow>
          check_skus r row_num skus
            (if qty < 0 then errors @ [negative_msg row_num sku] else errors,
             if qty > 0 then True else has_items))"

definition validate_row :: "row \<Rightarrow> int \<Rightarrow> string list \<Rightarrow> string list" where
  "validate_row r row_num sku_names =
     (let errors = check_required r row_num REQUIRED_ADDRESS_COLUMNS [];
          (errors, has_items) = check_skus r row_num sku_names (errors, False)
      in if \<not> has_items then errors @ [no_items_msg row_num] else errors)"

subsection \<open>Order building\<close>

record warehouse_order =
  recipient_email :: string
  tags :: json

record payload =
  warehouse_order :: warehouse_order
  address :: "(string \<times> string) list"
  contents :: "(string \<times> int) list"

text \<open>\<^verbatim>\<open>int(row[sku] or 0)\<close>\<close>

definition sku_qty :: "row \<Rightarrow> string \<Rightarrow> py_exc + int" where
  "sku_qty r sku =
     (case r sku of
        None \<Rightarrow> Inl (KeyError sku)
      | Some None \<Rightarrow> Inr 0
      | Some (Some s) \<Rightarrow>
          if s = [] then Inr 0
          else (case py_int s of None \<Rightarrow> Inl ValueError | Some q \<Rightarrow> Inr q))"

fun build_contents ::
  "row \<Rightarrow> string list \<Rightarrow> (string \<times> int) list \<Rightarrow> py_exc + (string \<times> int) list" where
  "build_contents r [] cs = Inr cs"
| "build_contents r (sku # skus) cs =
     thenE (sku_qty r sku)
       (\<lambda>qty. build_contents r skus (if qty > 0 then cs @ [(sku, qty)] else cs))"

text \<open>\<^verbatim>\<open>del d[k]\<close> on the item list of a dict that holds \<open>k\<close>.\<close>

definition del_key :: "string \<Rightarrow> (string \<times> 'v) list \<Rightarrow> (string \<times> 'v) list" where
  "del_key k kvs = filter (\<lambda>kv. fst kv \<noteq> k) kvs"

definition build_order_payload :: "row \<Rightarrow> string list \<Rightarrow> json \<Rightarrow> py_exc + payload" where
  "build_order_payload r sku_names tgs =
     thenE (build_contents r sku_names []) (\<lambda>cs.
     thenE (item_strip r ''email'') (\<lambda>email.
     thenE (item_strip r ''first_name'') (\<lambda>first_name.
     thenE (item_strip r ''line_1'') (\<lambda>line_1.
     thenE (item_strip r ''city'') (\<lambda>city.
     thenE (item_strip r ''state'') (\<lambda>state.
     thenE (item_strip r ''postal_code'') (\<lambda>postal_code.
     thenE (item_strip r ''country'') (\<lambda>country.
       let last_name = strip (get_or_empty r ''last_name'');
           line_2 = strip (get_or_empty r ''line_2'');
           addr = [(''first_name'', first_name), (''last_name'', last_name),
                   (''line_1'', line_1), (''line_2'', line_2), (''city'', city),
                   (''state'', state), (''postal_code'', postal_code),
                   (''country'', country)];
           addr = (if last_name = [] then del_key ''last_name'' addr else addr);
           addr = (if line_2 = [] then del_key ''line_2'' addr else addr)
       in Inr \<lparr>warehouse_order = \<lparr>recipient_email = email, tags = tgs\<rparr>,
               address = addr, contents = cs\<rparr>))))))))"

subsection \<open>JSON values as Python objects\<close>

text \<open>
  The items of an object are kept as the document lists them; on a repeated key the last
  item is the one the dict holds.
\<close>

definition dict_lookup :: "(string \<times> json) list \<Rightarrow> string \<Rightarrow> json option" where
  "dict_lookup kvs k = map_of (rev kvs) k"

fun starts_with :: "string \<Rightarrow> string \<Rightarrow> bool" where
  "starts_with s [] = True"
| "starts_with [] (k # ks) = False"
| "starts_with (c # cs) (k # ks) = (c = k \<and> starts_with cs ks)"

fun contains_str :: "string \<Rightarrow> string \<Rightarrow> bool" where
  "contains_str [] k = (k = [])"
| "contains_str (c # cs) k = (starts_with (c # cs) k \<or> contains_str cs k)"

text \<open>\<^verbatim>\<open>k in obj\<close> for a string \<open>k\<close>\<close>

fun py_in :: "string \<Rightarrow> json \<Rightarrow> py_exc + bool" where
  "py_in k (JObj kvs) = Inr (k \<in> set (map fst kvs))"
| "py_in k (JArr xs) = Inr (JStr k \<in> set xs)"
| "py_in k (JStr s) = Inr (contains_str s k)"
| "py_in k _ = Inl TypeError"

text \<open>\<^verbatim>\<open>obj[k]\<close> for a string \<open>k\<close>\<close>

fun getitem :: "json \<Rightarrow> string \<Rightarrow> py_exc + json" where
  "getitem (JObj kvs) k =
     (case dict_lookup kvs k of None \<Rightarrow> Inl (KeyError k) | Some v \<Rightarrow> Inr v)"
| "getitem _ k = Inl TypeError"

text \<open>\<^verbatim>\<open>obj.get(k)\<close>, with \<^verbatim>\<open>None\<close> as \<open>JNull\<close>\<close>

fun py_get :: "json \<Rightarrow> string \<Rightarrow> py_exc + json" where
  "py_get (JObj kvs) k = Inr (case dict_lookup kvs k of None \<Rightarrow> JNull | Some v \<Rightarrow> v)"
| "py_get _ k = Inl AttributeError"

fun py_len :: "json \<Rightarrow> py_exc + nat" where
  "py_len (JStr s) = Inr (length s)"
| "py_len (JArr xs) = Inr (length xs)"
| "py_len (JObj kvs) = Inr (length (remdups (map fst kvs)))"
| "py_len _ = Inl TypeError"

fun truthy :: "json \<Rightarrow> bool" where
  "truthy JNull = False"
| "truthy (JBool b) = b"
| "truthy (JInt i) = (i \<noteq> 0)"
| "truthy (JFloat m e) = (m \<noteq> 0)"
| "truthy (JStr s) = (s \<noteq> [])"
| "truthy (JArr xs) = (xs \<noteq> [])"
| "truthy (JObj kvs) = (kvs \<noteq> [])"

text \<open>\<^verbatim>\<open>sep.join(xs)\<close>\<close>

fun join :: "string \<Rightarrow> string list \<Rightarrow> string" where
  "join sep [] = []"
| "join sep [x] = x"
| "join sep (x # y # ys) = x @ sep @ join sep (y # ys)"

subsection \<open>Config\<close>

definition required_keys :: "string list" where
  "required_keys = [''theseus_base_url'', ''api_key'', ''tags'', ''skus'']"

text \<open>\<^verbatim>\<open>[k for k in required_keys if k not in config]\<close>\<close>

fun missing_keys :: "json \<Rightarrow> string list \<Rightarrow> py_exc + string list" where
  "missing_keys config [] = Inr []"
| "missing_keys config (k # ks) =
     thenE (py_in k config) (\<lambda>present.
     thenE (missing_keys config ks) (\<lambda>rest.
       Inr (if present then rest else k # rest)))"

text \<open>
  The argument is what \<^verbatim>\<open>open\<close> and \<^verbatim>\<open>json.load\<close> give for the config path: the parsed
  document, or the exception they raise.
\<close>

definition load_config :: "py_exc + json \<Rightarrow> py_exc + json" where
  "load_config file =
     thenE file (\<lambda>config.
     thenE (missing_keys config required_keys) (\<lambda>missing.
       if missing \<noteq> [] then
         Inl (SystemExit (''Config missing keys: '' @ join '', '' missing))
       else
         thenE (getitem config ''skus'') (\<lambda>skus.
         thenE (py_len skus) (\<lambda>n.
           if n \<noteq> 12 then
             Inl (SystemExit (''Config must list exactly 12 SKUs, got '' @ show_nat n))
           else
             thenE (getitem config ''api_key'') (\<lambda>key.
               if key = JStr ''YOUR_API_KEY_HERE'' then
                 Inl (SystemExit ''Set your real API key in config.json before running.'')
               else Inr config)))))"

subsection \<open>CSV reading\<close>

text \<open>
  The row that \<^verbatim>\<open>csv.DictReader\<close> makes of the fields of one record: the dict of the
  header names zipped with the fields, a missing field being \<^verbatim>\<open>None\<close>. Fields beyond the
  header go under the key \<^verbatim>\<open>None\<close>, which the program never reads.
\<close>

definition dict_row :: "string list \<Rightarrow> string list \<Rightarrow> row" where
  "dict_row headers cells =
     map_of (rev (zip headers
       (map Some cells @ replicate (length headers - length cells) None)))"

text \<open>
  A record is kept when the reader does not skip it as empty and its email is not blank.
\<close>

definition retained :: "string list \<Rightarrow> string list \<Rightarrow> bool" where
  "retained headers cells =
     (cells \<noteq> [] \<and> strip (get_or_empty (dict_row headers cells) ''email'') \<noteq> [])"

fun str_items :: "json list \<Rightarrow> string list" where
  "str_items [] = []"
| "str_items (JStr s # xs) = s # str_items xs"
| "str_items (_ # xs) = str_items xs"

fun is_str :: "json \<Rightarrow> bool" where
  "is_str (JStr s) = True"
| "is_str _ = False"

fun is_arr :: "json \<Rightarrow> bool" where
  "is_arr (JArr xs) = True"
| "is_arr _ = False"

fun arr_items :: "json \<Rightarrow> json list" where
  "arr_items (JArr xs) = xs"
| "arr_items _ = []"

text \<open>
  The first argument is what \<^verbatim>\<open>open\<close> and \<^verbatim>\<open>csv.reader\<close> give for the CSV path: the
  field lists of the file's records, the header first, or the exception raised. A record
  is one line of the file, or several when a quoted field holds a line break.
\<close>

definition read_orders_csv :: "py_exc + string list list \<Rightarrow> json \<Rightarrow> py_exc + row list" where
  "read_orders_csv file sku_names =
     (case sku_names of
        JArr names \<Rightarrow>
          thenE file (\<lambda>lines.
            let expected = map JStr ADDRESS_COLUMNS @ names;
                headers = (case lines of [] \<Rightarrow> [] | h # _ \<Rightarrow> h);
                missing_headers = filter (\<lambda>c. c \<notin> set (map JStr headers)) expected
            in if missing_headers \<noteq> [] then
                 (if list_all is_str missing_headers then
                    Inl (SystemExit (''CSV is missing columns: ''
                           @ join '', '' (str_items missing_headers)))
                  else Inl TypeError)
               else Inr (map (dict_row headers) (filter (retained headers) (tl lines))))
      | _ \<Rightarrow> Inl TypeError)"

subsection \<open>API interaction\<close>

text \<open>
  What one call of \<^verbatim>\<open>create_order\<close> ends in: the parsed response body; an
  \<^verbatim>\<open>HTTPError\<close> with its status code, its body if that parses as JSON, and its text; a
  \<^verbatim>\<open>URLError\<close> with the text of its reason; or any other exception. \<^verbatim>\<open>urlopen\<close>
  raises \<^verbatim>\<open>URLError\<close> for what goes wrong while it connects and sends the request; what
  goes wrong while it waits for the response or while \<^verbatim>\<open>resp.read()\<close> reads it comes
  as it is, such as the \<^verbatim>\<open>TimeoutError\<close> of a server that does not answer within the
  120 seconds of the \<^verbatim>\<open>timeout\<close>.
\<close>

datatype outcome =
    Returned json
  | HTTPError int "json option" string
  | URLError string
  | Raised py_exc

text \<open>
  The network: the outcome of the \<open>n\<close>-th request of the run, given its URL, the
  credential and the body.
\<close>

type_synonym network = "nat \<Rightarrow> string \<Rightarrow> json \<Rightarrow> payload \<Rightarrow> outcome"

definition rstrip_slash :: "string \<Rightarrow> string" where
  "rstrip_slash s = rev (dropWhile (\<lambda>c. c = CHR ''/'') (rev s))"

definition request_url :: "string \<Rightarrow> string" where
  "request_url base_url = rstrip_slash base_url @ ''/api/v1/warehouse_orders''"

definition create_order :: "network \<Rightarrow> nat \<Rightarrow> json \<Rightarrow> json \<Rightarrow> payload \<Rightarrow> outcome" where
  "create_order net n base_url api_key p =
     (case base_url of
        JStr u \<Rightarrow> net n (request_url u) api_key p
      | _ \<Rightarrow> Raised AttributeError)"

subsection \<open>The run\<close>

text \<open>
  What a run does, as far as it is observed here: it opens the CSV file; it logs a
  validation error; in a dry run it reports a row (its number, its email and the number of
  its content lines); it hands the request for a row to the network (the number of the
  row, the credential and the body); it writes the summary. The set-up of the log, the
  other log lines and the delay between two requests are left out, and writing the log and
  the results file is taken to succeed.
\<close>

datatype event =
    CsvOpened
  | ErrorLogged string
  | DryRunReported int string nat
  | OrderPosted int json payload
  | SummaryWritten json

record send_state =
  succeeded :: nat
  failed :: nat
  results :: "json list"
  trace :: "event list"

text \<open>\<^verbatim>\<open>enumerate(xs, start=n)\<close>\<close>

fun py_enumerate :: "int \<Rightarrow> 'a list \<Rightarrow> (int \<times> 'a) list" where
  "py_enumerate n [] = []"
| "py_enumerate n (x # xs) = (n, x) # py_enumerate (n + 1) xs"

text \<open>\<^verbatim>\<open>resp_body.get("id") or resp_body.get("hc_id") or "unknown"\<close>\<close>

definition order_id_of :: "json \<Rightarrow> py_exc + json" where
  "order_id_of resp_body =
     thenE (py_get resp_body ''id'') (\<lambda>a.
       if truthy a then Inr a
       else thenE (py_get resp_body ''hc_id'') (\<lambda>b.
         if truthy b then Inr b else Inr (JStr ''unknown'')))"

text \<open>The three shapes of a per-row result.\<close>

definition success_result :: "int \<Rightarrow> string \<Rightarrow> json \<Rightarrow> json \<Rightarrow> json" where
  "success_result idx email order_id resp_body =
     JObj [(''row'', JInt idx), (''email'', JStr email), (''status'', JStr ''success''),
           (''order_id'', order_id), (''response'', resp_body)]"

definition http_failure_result :: "int \<Rightarrow> string \<Rightarrow> int \<Rightarrow> json \<Rightarrow> json" where
  "http_failure_result idx email code error_body =
     JObj [(''row'', JInt idx), (''email'', JStr email), (''status'', JStr ''failed''),
           (''http_status'', JInt code), (''error'', error_body)]"

definition url_failure_result :: "int \<Rightarrow> string \<Rightarrow> string \<Rightarrow> json" where
  "url_failure_result idx email reason =
     JObj [(''row'', JInt idx), (''email'', JStr email), (''status'', JStr ''failed''),
           (''error'', JStr reason)]"

text \<open>The error body of an \<^verbatim>\<open>HTTPError\<close>: its JSON, or its text under \<^verbatim>\<open>raw\<close>.\<close>

definition error_body_of :: "json option \<Rightarrow> string \<Rightarrow> json" where
  "error_body_of parsed text =
     (case parsed of Some j \<Rightarrow> j | None \<Rightarrow> JObj [(''raw'', JStr text)])"

definition record_success :: "send_state \<Rightarrow> json \<Rightarrow> send_state" where
  "record_success st res = st\<lparr>succeeded := succeeded st + 1, results := results st @ [res]\<rparr>"

definition record_failure :: "send_state \<Rightarrow> json \<Rightarrow> send_state" where
  "record_failure st res = st\<lparr>failed := failed st + 1, results := results st @ [res]\<rparr>"

text \<open>
  What the \<^verbatim>\<open>try\<close> statement of the send loop makes of the outcome of
  \<^verbatim>\<open>create_order\<close>. The second component is the exception that leaves the loop, if any.
\<close>

fun handle_outcome ::
  "int \<Rightarrow> string \<Rightarrow> send_state \<Rightarrow> outcome \<Rightarrow> send_state \<times> py_exc option" where
  "handle_outcome idx email st (Returned resp_body) =
     (case order_id_of resp_body of
        Inl e \<Rightarrow> (st, Some e)
      | Inr order_id \<Rightarrow>
          (record_success st (success_result idx email order_id resp_body), None))"
| "handle_outcome idx email st (HTTPError code parsed text) =
     (record_failure st (http_failure_result idx email code (error_body_of parsed text)), None)"
| "handle_outcome idx email st (URLError reason) =
     (record_failure st (url_failure_result idx email reason), None)"
| "handle_outcome idx email st (Raised e) = (st, Some e)"

text \<open>
  The body of the send loop for one row. The requests made before this one are as many as
  the results, since every request that did not end the loop has left one result.
\<close>

definition send_order ::
  "network \<Rightarrow> json \<Rightarrow> json \<Rightarrow> string list \<Rightarrow> json \<Rightarrow> int \<Rightarrow> row \<Rightarrow> send_state
     \<Rightarrow> send_state \<times> py_exc option" where
  "send_order net base_url api_key sku_names tgs idx r st =
     (case item_strip r ''email'' of
        Inl e \<Rightarrow> (st, Some e)
      | Inr email \<Rightarrow>
          (case build_order_payload r sku_names tgs of
             Inl e \<Rightarrow> (st, Some e)
           | Inr p \<Rightarrow>
               handle_outcome idx email
                 (if is_str base_url
                  then st\<lparr>trace := trace st @ [OrderPosted idx api_key p]\<rparr> else st)
                 (create_order net (length (results st)) base_url api_key p)))"

fun send_orders ::
  "network \<Rightarrow> json \<Rightarrow> json \<Rightarrow> string list \<Rightarrow> json \<Rightarrow> (int \<times> row) list \<Rightarrow> send_state
     \<Rightarrow> send_state \<times> py_exc option" where
  "send_orders net base_url api_key sku_names tgs [] st = (st, None)"
| "send_orders net base_url api_key sku_names tgs ((idx, r) # rest) st =
     (case send_order net base_url api_key sku_names tgs idx r st of
        (st', Some e) \<Rightarrow> (st', Some e)
      | (st', None) \<Rightarrow> send_orders net base_url api_key sku_names tgs rest st')"

text \<open>The dry-run loop, threading the log.\<close>

fun dry_run_rows ::
  "string list \<Rightarrow> json \<Rightarrow> (int \<times> row) list \<Rightarrow> event list \<Rightarrow> event list \<times> py_exc option" where
  "dry_run_rows sku_names tgs [] evs = (evs, None)"
| "dry_run_rows sku_names tgs ((idx, r) # rest) evs =
     (case build_order_payload r sku_names tgs of
        Inl e \<Rightarrow> (evs, Some e)
      | Inr p \<Rightarrow>
          (case item_strip r ''email'' of
             Inl e \<Rightarrow> (evs, Some e)
           | Inr email \<Rightarrow>
               dry_run_rows sku_names tgs rest
                 (evs @ [DryRunReported idx email (length (contents p))])))"

text \<open>The validation loop of \<^verbatim>\<open>run\<close>, threading \<^verbatim>\<open>all_errors\<close>.\<close>

fun validate_rows :: "string list \<Rightarrow> (int \<times> row) list \<Rightarrow> string list \<Rightarrow> string list" where
  "validate_rows sku_names [] all_errors = all_errors"
| "validate_rows sku_names ((idx, r) # rest) all_errors =
     validate_rows sku_names rest (all_errors @ validate_row r idx sku_names)"

text \<open>
  What the run is given: the outcome of reading each input file, the network, and the
  clock's reading for \<^verbatim>\<open>run_at\<close>.
\<close>

record world =
  config_file :: "py_exc + json"
  csv_file :: "py_exc + string list list"
  net :: network
  run_at :: string

text \<open>
  The result of a run: what it did, in order, and then how it ended (\<open>None\<close> when
  \<^verbatim>\<open>run\<close> returns, otherwise the exception that ends the process). Log lines other than
  the validation errors and the dry-run reports are left out.
\<close>

record run_result =
  events :: "event list"
  ended :: "py_exc option"

definition exit_status :: "run_result \<Rightarrow> nat" where
  "exit_status res = (case ended res of None \<Rightarrow> 0 | Some _ \<Rightarrow> 1)"

text \<open>The two ways in which \<^verbatim>\<open>run\<close> itself ends the process.\<close>

definition validation_failure :: "string list \<Rightarrow> py_exc" where
  "validation_failure errs =
     SystemExit (''Validation failed with '' @ show_nat (length errs)
       @ '' error(s). Fix the CSV and retry.'')"

definition send_failure :: "nat \<Rightarrow> py_exc" where
  "send_failure n = SystemExit (show_nat n @ '' order(s) failed. Check the log for details.'')"

text \<open>The part of \<^verbatim>\<open>run\<close> under the comments \<^verbatim>\<open>Send orders\<close> and \<^verbatim>\<open>Summary\<close>.\<close>

definition send_phase ::
  "world \<Rightarrow> string \<Rightarrow> json \<Rightarrow> string list \<Rightarrow> json \<Rightarrow> json \<Rightarrow> row list \<Rightarrow> run_result" where
  "send_phase w csv_path config sku_names tgs base_url rows =
     (case getitem config ''api_key'' of
        Inl e \<Rightarrow> \<lparr>events = [CsvOpened], ended = Some e\<rparr>
      | Inr api_key \<Rightarrow>
          (case send_orders (net w) base_url api_key sku_names tgs (py_enumerate 2 rows)
                  \<lparr>succeeded = 0, failed = 0, results = [], trace = [CsvOpened]\<rparr> of
             (st, Some e) \<Rightarrow> \<lparr>events = trace st, ended = Some e\<rparr>
           | (st, None) \<Rightarrow>
               \<lparr>events = trace st @
                  [SummaryWritten (JObj
                     [(''run_at'', JStr (run_at w)), (''csv'', JStr csv_path),
                      (''total'', JInt (int (length rows))),
                      (''succeeded'', JInt (int (succeeded st))),
                      (''failed'', JInt (int (failed st))),
                      (''orders'', JArr (results st))])],
                ended = (if failed st \<noteq> 0 then Some (send_failure (failed st))
                         else None)\<rparr>))"

text \<open>The part of \<^verbatim>\<open>run\<close> from the comment \<^verbatim>\<open>Validate all rows first\<close> on.\<close>

definition process_rows ::
  "world \<Rightarrow> string \<Rightarrow> bool \<Rightarrow> json \<Rightarrow> string list \<Rightarrow> json \<Rightarrow> json \<Rightarrow> row list
     \<Rightarrow> run_result" where
  "process_rows w csv_path dry_run config sku_names tgs base_url rows =
     (let all_errors = validate_rows sku_names (py_enumerate 2 rows) []
      in if all_errors \<noteq> [] then
           \<lparr>events = CsvOpened # map ErrorLogged all_errors,
            ended = Some (validation_failure all_errors)\<rparr>
         else if dry_run then
           (case dry_run_rows sku_names tgs (py_enumerate 2 rows) [CsvOpened] of
              (evs, ex) \<Rightarrow> \<lparr>events = evs, ended = ex\<rparr>)
         else send_phase w csv_path config sku_names tgs base_url rows)"

text \<open>
  Once \<^verbatim>\<open>read_orders_csv\<close> has returned, every SKU name is a string, since each of them
  is among the header names.
\<close>

definition run :: "world \<Rightarrow> string \<Rightarrow> bool \<Rightarrow> run_result" where
  "run w csv_path dry_run =
     (case load_config (config_file w) of
        Inl e \<Rightarrow> \<lparr>events = [], ended = Some e\<rparr>
      | Inr config \<Rightarrow>
     (case thenE (getitem config ''skus'') (\<lambda>sku_names.
           thenE (getitem config ''tags'') (\<lambda>tgs.
           thenE (getitem config ''theseus_base_url'') (\<lambda>base_url.
             Inr (sku_names, tgs, base_url)))) of
        Inl e \<Rightarrow> \<lparr>events = [], ended = Some e\<rparr>
      | Inr (sku_json, tgs, base_url) \<Rightarrow>
     (case read_orders_csv (csv_file w) sku_json of
        Inl e \<Rightarrow> \<lparr>events = (if is_arr sku_json then [CsvOpened] else []), ended = Some e\<rparr>
      | Inr rows \<Rightarrow>
          process_rows w csv_path dry_run config (str_items (arr_items sku_json))
            tgs base_url rows)))"

section \<open>Properties\<close>

subsection \<open>Predicates on rows\<close>

text \<open>A field is blank when \<^verbatim>\<open>(row.get(col) or "").strip()\<close> is the empty string.\<close>

definition field_blank :: "row \<Rightarrow> string \<Rightarrow> bool" where
  "field_blank r col = (strip (get_or_empty r col) = [])"

definition all_required_present :: "row \<Rightarrow> bool" where
  "all_required_present r = list_all (\<lambda>col. \<not> field_blank r col) REQUIRED_ADDRESS_COLUMNS"

text \<open>The errors that one SKU column adds to the list.\<close>

definition sku_errors :: "row \<Rightarrow> int \<Rightarrow> string \<Rightarrow> string list" where
  "sku_errors r row_num sku =
     (let raw = strip (get_or_empty r sku) in
      if raw = [] then []
      else case py_int raw of
        None \<Rightarrow> [non_integer_msg row_num raw sku]
      | Some qty \<Rightarrow> if qty < 0 then [negative_msg row_num sku] else [])"

text \<open>The trimmed cell of the column reads as a positive integer.\<close>

definition sku_positive :: "row \<Rightarrow> string \<Rightarrow> bool" where
  "sku_positive r sku =
     (case py_int (strip (get_or_empty r sku)) of None \<Rightarrow> False | Some qty \<Rightarrow> 0 < qty)"

text \<open>The trimmed cell of the column is blank or reads as a non-negative integer.\<close>

definition sku_acceptable :: "row \<Rightarrow> string \<Rightarrow> bool" where
  "sku_acceptable r sku =
     (let raw = strip (get_or_empty r sku) in
      raw = [] \<or> (case py_int raw of None \<Rightarrow> False | Some qty \<Rightarrow> 0 \<le> qty))"

text \<open>\<^verbatim>\<open>build_order_payload\<close> returns a payload for the row.\<close>

definition builds :: "string list \<Rightarrow> json \<Rightarrow> row \<Rightarrow> bool" where
  "builds sku_names tgs r =
     (case build_order_payload r sku_names tgs of Inl e \<Rightarrow> False | Inr p \<Rightarrow> True)"

subsection \<open>Predicates on configs\<close>

fun has_key :: "json \<Rightarrow> string \<Rightarrow> bool" where
  "has_key (JObj kvs) k = (k \<in> set (map fst kvs))"
| "has_key _ k = False"

text \<open>
  The config has the four required keys, its \<^verbatim>\<open>skus\<close> have exactly 12 entries, and its
  \<^verbatim>\<open>api_key\<close> is not the placeholder.
\<close>

definition config_acceptable :: "json \<Rightarrow> bool" where
  "config_acceptable c =
     (list_all (has_key c) required_keys
      \<and> thenE (getitem c ''skus'') py_len = Inr 12
      \<and> getitem c ''api_key'' \<noteq> Inr (JStr ''YOUR_API_KEY_HERE''))"

subsection \<open>Predicates on events, outcomes and results\<close>

fun is_post :: "event \<Rightarrow> bool" where
  "is_post (OrderPosted idx k p) = True"
| "is_post _ = False"

fun is_summary :: "event \<Rightarrow> bool" where
  "is_summary (SummaryWritten s) = True"
| "is_summary _ = False"

text \<open>
  The outcomes after which the send loop goes on: a response that is a JSON object, and
  the two exceptions that the loop catches.
\<close>

fun recoverable :: "outcome \<Rightarrow> bool" where
  "recoverable (Returned body) = (case body of JObj kvs \<Rightarrow> True | _ \<Rightarrow> False)"
| "recoverable (HTTPError code parsed text) = True"
| "recoverable (URLError reason) = True"
| "recoverable (Raised e) = False"

text \<open>The event of posting the order of a numbered row, when its payload can be built.\<close>

definition post_of :: "string list \<Rightarrow> json \<Rightarrow> json \<Rightarrow> int \<times> row \<Rightarrow> event list" where
  "post_of sku_names tgs api_key ir =
     (case build_order_payload (snd ir) sku_names tgs of
        Inl e \<Rightarrow> []
      | Inr p \<Rightarrow> [OrderPosted (fst ir) api_key p])"

definition failed_result :: "json \<Rightarrow> bool" where
  "failed_result res = (getitem res ''status'' = Inr (JStr ''failed''))"

text \<open>
  A result with the status \<^verbatim>\<open>success\<close> has a response, and its \<^verbatim>\<open>order_id\<close> is what
  the expression of the source makes of that response.
\<close>

definition success_result_ok :: "json \<Rightarrow> bool" where
  "success_result_ok res =
     (getitem res ''status'' = Inr (JStr ''success'') \<longrightarrow>
        (case getitem res ''response'' of
           Inl e \<Rightarrow> False
         | Inr body \<Rightarrow> order_id_of body = getitem res ''order_id''))"

text \<open>The results carry the row numbers \<open>n\<close>, \<open>n + 1\<close>, and so on.\<close>

definition rows_numbered :: "int \<Rightarrow> json list \<Rightarrow> bool" where
  "rows_numbered n new =
     (\<forall>k < length new. getitem (new ! k) ''row'' = Inr (JInt (n + int k)))"

text \<open>What one pass of the loop body does to the state when it adds the result \<open>res\<close>.\<close>

definition step_ok :: "int \<Rightarrow> send_state \<Rightarrow> send_state \<Rightarrow> json \<Rightarrow> bool" where
  "step_ok idx st st' res =
     (results st' = results st @ [res]
      \<and> getitem res ''row'' = Inr (JInt idx)
      \<and> success_result_ok res
      \<and> succeeded st' + failed st' = Suc (succeeded st + failed st)
      \<and> failed st' = failed st + (if failed_result res then 1 else 0))"

text \<open>
  What the send loop over \<open>len\<close> rows numbered from \<open>n\<close> does to the state, adding the
  results \<open>new\<close> and ending with \<open>ex\<close>.
\<close>

definition loop_ok ::
  "int \<Rightarrow> nat \<Rightarrow> py_exc option \<Rightarrow> send_state \<Rightarrow> send_state \<Rightarrow> json list \<Rightarrow> bool" where
  "loop_ok n len ex st st' new =
     (results st' = results st @ new
      \<and> length new \<le> len
      \<and> (ex = None \<longrightarrow> length new = len)
      \<and> rows_numbered n new
      \<and> list_all success_result_ok new
      \<and> succeeded st' + failed st' = succeeded st + failed st + length new
      \<and> failed st' = failed st + length (filter failed_result new))"

text \<open>The result \<open>res\<close> is that of the row \<open>r\<close> under the number \<open>idx\<close>.\<close>

definition result_of_row :: "int \<Rightarrow> row \<Rightarrow> json \<Rightarrow> bool" where
  "result_of_row idx r res =
     (getitem res ''row'' = Inr (JInt idx)
      \<and> (case item_strip r ''email'' of
            Inl e \<Rightarrow> False
          | Inr email \<Rightarrow> getitem res ''email'' = Inr (JStr email)))"

text \<open>The message starts with \<^verbatim>\<open>Row n: \<close>.\<close>

definition names_row :: "int \<Rightarrow> string \<Rightarrow> bool" where
  "names_row n msg = starts_with msg (''Row '' @ show_int n @ '': '')"

subsection \<open>Records and lines of the CSV file\<close>

text \<open>
  The number of retained records before the record \<open>i\<close> of the data, which is the position
  of its row in the list that \<^verbatim>\<open>read_orders_csv\<close> returns.
\<close>

definition position :: "string list \<Rightarrow> string list list \<Rightarrow> nat \<Rightarrow> nat" where
  "position headers data i = length (filter (retained headers) (take i data))"

text \<open>
  The line of the file on which the record \<open>i\<close> of the data starts, lines counted from 1,
  when \<open>spans\<close> lists how many lines the header and then each record of the data take.
\<close>

definition first_line :: "nat list \<Rightarrow> nat \<Rightarrow> nat" where
  "first_line spans i = Suc (sum_list (take (Suc i) spans))"



subsection \<open>Example inputs\<close>

definition ex_skus :: "string list" where
  "ex_skus = [''s01'', ''s02'', ''s03'', ''s04'', ''s05'', ''s06'',
              ''s07'', ''s08'', ''s09'', ''s10'', ''s11'', ''s12'']"

definition ex_headers :: "string list" where
  "ex_headers = ADDRESS_COLUMNS @ ex_skus"

text \<open>A line of a CSV file: email, city and the cells of the first two SKU columns vary.\<close>

definition ex_line :: "string \<Rightarrow> string \<Rightarrow> string \<Rightarrow> string \<Rightarrow> string list" where
  "ex_line email city q1 q2 =
     [''Ada'', [], email, ''1 Main St'', [], city, ''VT'', ''05401'', ''US'',
      q1, q2, [], [], [], [], [], [], [], [], [], []]"

definition ex_row :: "string \<Rightarrow> string \<Rightarrow> string \<Rightarrow> string \<Rightarrow> row" where
  "ex_row email city q1 q2 = dict_row (ADDRESS_COLUMNS @ ex_skus) (ex_line email city q1 q2)"

text \<open>A config with the given SKU names, and a world with that config and a CSV file.\<close>

definition ex_tags :: json where
  "ex_tags = JArr [JStr ''promo'']"

definition ex_config :: "string list \<Rightarrow> json" where
  "ex_config skus = JObj [(''theseus_base_url'', JStr ''https://mail.example/''),
     (''api_key'', JStr ''secret''), (''tags'', JArr [JStr ''promo'']),
     (''skus'', JArr (map JStr skus))]"

definition ex_world :: "json \<Rightarrow> string list list \<Rightarrow> network \<Rightarrow> world" where
  "ex_world config data n = \<lparr>config_file = Inr config,
     csv_file = Inr ((ADDRESS_COLUMNS @ ex_skus) # data), net = n, run_at = ''2026-01-01''\<rparr>"

text \<open>
  A network that accepts the first request of a run with the body \<^verbatim>\<open>{"id": "ord_1"}\<close>
  and rejects every later one with the status 422.
\<close>

definition ex_net :: network where
  "ex_net k url key p =
     (if k = 0 then Returned (JObj [(''id'', JStr ''ord_1'')])
      else HTTPError 422 (Some (JObj [(''error'', JStr ''bad address'')])) ''HTTP Error 422'')"

text \<open>
  A run with mixed outcomes: three data lines, the second with a blank email, so that the
  row of the fourth line of the file has the number 3.
\<close>

definition ex_data :: "string list list" where
  "ex_data = [ex_line ''a@x.org'' ''Stowe'' ''3'' [], ex_line '' '' ''Stowe'' ''5'' [],
              ex_line ''b@x.org'' ''Stowe'' ''1'' ''2'']"

definition ex_rows :: "row list" where
  "ex_rows = [ex_row ''a@x.org'' ''Stowe'' ''3'' [], ex_row ''b@x.org'' ''Stowe'' ''1'' ''2'']"

definition ex_mixed :: world where
  "ex_mixed = ex_world (ex_config ex_skus) ex_data ex_net"

definition ex_payload_a :: payload where
  "ex_payload_a =
     \<lparr>warehouse_order = \<lparr>recipient_email = ''a@x.org'', tags = JArr [JStr ''promo'']\<rparr>,
      address = [(''first_name'', ''Ada''), (''line_1'', ''1 Main St''), (''city'', ''Stowe''),
                 (''state'', ''VT''), (''postal_code'', ''05401''), (''country'', ''US'')],
      contents = [(''s01'', 3)]\<rparr>"

definition ex_payload_b :: payload where
  "ex_payload_b =
     \<lparr>warehouse_order = \<lparr>recipient_email = ''b@x.org'', tags = JArr [JStr ''promo'']\<rparr>,
      address = [(''first_name'', ''Ada''), (''line_1'', ''1 Main St''), (''city'', ''Stowe''),
                 (''state'', ''VT''), (''postal_code'', ''05401''), (''country'', ''US'')],
      contents = [(''s01'', 1), (''s02'', 2)]\<rparr>"

definition ex_results :: "json list" where
  "ex_results =
     [success_result 2 ''a@x.org'' (JStr ''ord_1'') (JObj [(''id'', JStr ''ord_1'')]),
      http_failure_result 3 ''b@x.org'' 422 (JObj [(''error'', JStr ''bad address'')])]"

definition ex_summary :: json where
  "ex_summary = JObj [(''run_at'', JStr ''2026-01-01''), (''csv'', JStr ''orders.csv''),
     (''total'', JInt 2), (''succeeded'', JInt 1), (''failed'', JInt 1),
     (''orders'', JArr ex_results)]"

text \<open>A run whose second row has a blank city.\<close>

definition ex_blank_city :: world where
  "ex_blank_city = ex_world (ex_config ex_skus)
     [ex_line ''a@x.org'' ''Stowe'' ''3'' [], ex_line ''b@x.org'' '' '' ''1'' ''2''] ex_net"

definition ex_rows_blank_city :: "row list" where
  "ex_rows_blank_city =
     [ex_row ''a@x.org'' ''Stowe'' ''3'' [], ex_row ''b@x.org'' '' '' ''1'' ''2'']"

text \<open>A run whose second row has a single space in its second SKU column.\<close>

definition ex_blank_quantity :: world where
  "ex_blank_quantity = ex_world (ex_config ex_skus)
     [ex_line ''b@x.org'' ''Stowe'' ''1'' ''2'', ex_line ''a@x.org'' ''Stowe'' ''3'' '' '']
     ex_net"

definition ex_rows_blank_quantity :: "row list" where
  "ex_rows_blank_quantity =
     [ex_row ''b@x.org'' ''Stowe'' ''1'' ''2'', ex_row ''a@x.org'' ''Stowe'' ''3'' '' '']"

text \<open>
  The data of the run with mixed outcomes, where the row after the record with the blank
  email has a blank city.
\<close>

definition ex_skipped_blank_city :: world where
  "ex_skipped_blank_city = ex_world (ex_config ex_skus)
     [ex_line ''a@x.org'' ''Stowe'' ''3'' [], ex_line '' '' ''Stowe'' ''5'' [],
      ex_line ''b@x.org'' '' '' ''1'' ''2''] ex_net"

text \<open>
  A network whose server takes the first request of a run and does not answer it in time,
  and a network that refuses the connection of the first request. Both accept every later
  request.
\<close>

definition ex_net_timeout :: network where
  "ex_net_timeout k url key p =
     (if k = 0 then Raised TimeoutError else Returned (JObj [(''id'', JStr ''ord_2'')]))"

definition ex_net_refused :: network where
  "ex_net_refused k url key p =
     (if k = 0 then URLError ''[Errno 111] Connection refused''
      else Returned (JObj [(''id'', JStr ''ord_2'')]))"

definition ex_timeout :: world where
  "ex_timeout = ex_world (ex_config ex_skus) ex_data ex_net_timeout"

definition ex_refused :: world where
  "ex_refused = ex_world (ex_config ex_skus) ex_data ex_net_refused"

definition ex_results_refused :: "json list" where
  "ex_results_refused =
     [url_failure_result 2 ''a@x.org'' ''[Errno 111] Connection refused'',
      success_result 3 ''b@x.org'' (JStr ''ord_2'') (JObj [(''id'', JStr ''ord_2'')])]"

definition ex_summary_refused :: json where
  "ex_summary_refused = JObj [(''run_at'', JStr ''2026-01-01''), (''csv'', JStr ''orders.csv''),
     (''total'', JInt 2), (''succeeded'', JInt 1), (''failed'', JInt 1),
     (''orders'', JArr ex_results_refused)]"


definition ex_state :: send_state where
  "ex_state = \<lparr>succeeded = 0, failed = 0, results = [], trace = [CsvOpened]\<rparr>"

subsection \<open>Evaluation of the examples\<close>

lemmas ex_simps = ex_row_def ex_line_def ex_skus_def dict_row_def ADDRESS_COLUMNS_def
  REQUIRED_ADDRESS_COLUMNS_def field_blank_def get_or_empty_def strip_def py_isspace_def
  int_isspace_def py_int_def int_strip_def is_digit_def digit_val_def parse_unsigned_def
  int_max_str_digits_def sku_positive_def sku_acceptable_def sku_errors_def
  all_required_present_def Let_def

subsection \<open>The validator as a list of messages\<close>

lemma py_int_Nil: "py_int [] = None"
  by (simp add: py_int_def int_strip_def)

lemma check_required_eq:
  "check_required r n cols errs = errs @ map (missing_msg n) (filter (field_blank r) cols)"
  by (induction cols arbitrary: errs) (simp_all add: field_blank_def)

lemma check_skus_eq:
  "check_skus r n skus (errs, h) =
     (errs @ concat (map (sku_errors r n) skus), h \<or> list_ex (sku_positive r) skus)"
proof (induction skus arbitrary: errs h)
  case Nil
  show ?case by simp
next
  case (Cons sku skus)
  show ?case
  proof (cases "strip (get_or_empty r sku) = []")
    case True
    then show ?thesis
      by (simp add: Cons.IH sku_errors_def sku_positive_def py_int_Nil)
  next
    case False
    then show ?thesis
      by (cases "py_int (strip (get_or_empty r sku))")
         (auto simp add: Cons.IH sku_errors_def sku_positive_def Let_def)
  qed
qed

lemma validate_row_eq:
  "validate_row r n skus =
     map (missing_msg n) (filter (field_blank r) REQUIRED_ADDRESS_COLUMNS)
       @ concat (map (sku_errors r n) skus)
       @ (if list_ex (sku_positive r) skus then [] else [no_items_msg n])"
  by (simp add: validate_row_def check_required_eq check_skus_eq)

lemma sku_errors_Nil_iff: "sku_errors r n sku = [] \<longleftrightarrow> sku_acceptable r sku"
  by (auto simp add: sku_errors_def sku_acceptable_def Let_def split: option.splits)

lemma validate_row_Nil_iff:
  "validate_row r n skus = [] \<longleftrightarrow>
     list_all (\<lambda>c. \<not> field_blank r c) REQUIRED_ADDRESS_COLUMNS
       \<and> list_all (sku_acceptable r) skus \<and> list_ex (sku_positive r) skus"
  by (auto simp add: validate_row_eq filter_empty_conv list_all_iff sku_errors_Nil_iff)







subsection \<open>Decimal rendering and the row number of a message\<close>

text \<open>
  The rendering of an integer is a non-empty list of digits after an optional minus sign,
  and different integers have different renderings. Every message of the validator
  starts with \<^verbatim>\<open>Row\<close>, the rendering of the row number, a colon and a space, so a
  message determines its row number.
\<close>

lemma digit_char_cases:
  "d < 10 \<Longrightarrow>
     d = 0 \<or> d = 1 \<or> d = 2 \<or> d = 3 \<or> d = 4 \<or> d = 5 \<or> d = 6 \<or> d = 7 \<or> d = 8 \<or> d = (9::nat)"
  by arith

lemma digit_val_digit_char: "d < 10 \<Longrightarrow> digit_val (digit_char d) = d"
  using digit_char_cases [of d] by (auto simp add: digit_char_def digit_val_def)

lemma is_digit_digit_char: "d < 10 \<Longrightarrow> is_digit (digit_char d)"
  using digit_char_cases [of d] by (auto simp add: digit_char_def is_digit_def)

lemma digit_char_inj: "d < 10 \<Longrightarrow> e < 10 \<Longrightarrow> digit_char d = digit_char e \<Longrightarrow> d = e"
  by (metis digit_val_digit_char)

lemma show_nat_digits: "list_all is_digit (show_nat n)"
proof (induction n rule: show_nat.induct)
  case (1 n)
  show ?case
  proof (cases "n < 10")
    case True
    then show ?thesis by (simp add: show_nat.simps [of n] is_digit_digit_char)
  next
    case False
    with 1 show ?thesis by (simp add: show_nat.simps [of n] is_digit_digit_char)
  qed
qed

lemma show_nat_not_Nil: "show_nat n \<noteq> []"
  by (simp add: show_nat.simps [of n])

lemma show_nat_length: "length (show_nat n) = Suc 0 \<longleftrightarrow> n < 10"
proof (cases "n < 10")
  case True
  then have "show_nat n = [digit_char n]" by (simp add: show_nat.simps [of n])
  with True show ?thesis by simp
next
  case False
  then have "show_nat n = show_nat (n div 10) @ [digit_char (n mod 10)]"
    by (simp add: show_nat.simps [of n])
  with False show_nat_not_Nil [of "n div 10"] show ?thesis by simp
qed

lemma show_nat_inj: "show_nat n = show_nat m \<Longrightarrow> n = m"
proof (induction n arbitrary: m rule: show_nat.induct)
  case (1 n)
  show ?case
  proof (cases "n < 10")
    case True
    then have "length (show_nat n) = Suc 0" by (simp add: show_nat_length)
    with 1(2) have m: "m < 10" by (simp add: show_nat_length)
    with True 1(2) show ?thesis
      by (simp add: show_nat.simps [of n] show_nat.simps [of m] digit_char_inj)
  next
    case False
    then have "length (show_nat n) \<noteq> Suc 0" by (simp add: show_nat_length)
    with 1(2) have m: "\<not> m < 10" by (simp add: show_nat_length)
    from False m 1(2) have a: "show_nat (n div 10) = show_nat (m div 10)"
      and b: "digit_char (n mod 10) = digit_char (m mod 10)"
      by (simp_all add: show_nat.simps [of n] show_nat.simps [of m])
    from 1(1) [OF False a] have "n div 10 = m div 10" .
    moreover from b have "n mod 10 = m mod 10" by (simp add: digit_char_inj)
    ultimately show ?thesis by (metis div_mult_mod_eq)
  qed
qed

lemma show_nat_hd: "hd (show_nat n) \<noteq> CHR ''-''"
  using show_nat_digits [of n] show_nat_not_Nil [of n]
  by (cases "show_nat n") (auto simp add: is_digit_def)

lemma show_int_inj: "show_int i = show_int j \<Longrightarrow> i = j"
proof -
  assume e: "show_int i = show_int j"
  have neg: "\<And>a b. a < 0 \<Longrightarrow> \<not> b < 0 \<Longrightarrow> show_int a \<noteq> show_int b"
  proof
    fix a b :: int assume "a < 0" "\<not> b < 0" "show_int a = show_int b"
    then have "hd (show_nat (nat b)) = CHR ''-''" by (simp add: show_int_def) (metis list.sel(1))
    then show False using show_nat_hd by blast
  qed
  show ?thesis
  proof (cases "i < 0")
    case True
    show ?thesis
    proof (cases "j < 0")
      case t: True
      with True e have "show_nat (nat (- i)) = show_nat (nat (- j))" by (simp add: show_int_def)
      then have "nat (- i) = nat (- j)" by (rule show_nat_inj)
      with True t show ?thesis by simp
    next
      case False
      with True e neg [of i j] show ?thesis by simp
    qed
  next
    case False
    show ?thesis
    proof (cases "j < 0")
      case True
      with False e neg [of j i] show ?thesis by simp
    next
      case f: False
      with False e have "show_nat (nat i) = show_nat (nat j)" by (simp add: show_int_def)
      then have "nat i = nat j" by (rule show_nat_inj)
      with False f show ?thesis by simp
    qed
  qed
qed

lemma show_int_no_colon: "CHR '':'' \<notin> set (show_int i)"
  using show_nat_digits [of "nat i"] show_nat_digits [of "nat (- i)"]
  by (auto simp add: show_int_def list_all_iff is_digit_def)

lemma split_at_first:
  "a \<notin> set xs \<Longrightarrow> a \<notin> set xs' \<Longrightarrow> xs @ a # ys = xs' @ a # ys' \<Longrightarrow> xs = xs' \<and> ys = ys'"
proof (induction xs arbitrary: xs')
  case Nil
  then show ?case by (cases xs') auto
next
  case (Cons x xs)
  then show ?case by (cases xs') auto
qed

lemma row_prefix_inj:
  "''Row '' @ show_int n @ '': '' @ rest = ''Row '' @ show_int m @ '': '' @ rest'
     \<Longrightarrow> n = m \<and> rest = rest'"
proof -
  assume "''Row '' @ show_int n @ '': '' @ rest = ''Row '' @ show_int m @ '': '' @ rest'"
  then have "show_int n @ CHR '':'' # (CHR '' '' # rest) = show_int m @ CHR '':'' # (CHR '' '' # rest')"
    by simp
  from split_at_first [OF show_int_no_colon show_int_no_colon this]
  show ?thesis by (simp add: show_int_inj)
qed


lemma starts_with_iff: "starts_with s k \<longleftrightarrow> (\<exists>rest. s = k @ rest)"
  by (induction s k rule: starts_with.induct) auto

lemma names_row_iff:
  "names_row m (''Row '' @ show_int n @ '': '' @ rest) \<longleftrightarrow> m = n"
proof
  assume "names_row m (''Row '' @ show_int n @ '': '' @ rest)"
  then obtain rest' where "''Row '' @ show_int n @ '': '' @ rest
      = (''Row '' @ show_int m @ '': '') @ rest'"
    unfolding names_row_def starts_with_iff by blast
  then have "''Row '' @ show_int n @ '': '' @ rest = ''Row '' @ show_int m @ '': '' @ rest'"
    by simp
  from row_prefix_inj [OF this] show "m = n" by simp
next
  assume "m = n"
  then show "names_row m (''Row '' @ show_int n @ '': '' @ rest)"
    unfolding names_row_def starts_with_iff by simp
qed

lemma validate_row_shape:
  "e \<in> set (validate_row r n skus) \<Longrightarrow> \<exists>rest. e = ''Row '' @ show_int n @ '': '' @ rest"
  by (auto simp add: validate_row_eq missing_msg_def sku_errors_def negative_msg_def
        non_integer_msg_def no_items_msg_def Let_def split: if_splits option.splits)

lemma validate_row_names_row:
  "e \<in> set (validate_row r n skus) \<Longrightarrow> names_row m e \<longleftrightarrow> m = n"
  using validate_row_shape [of e r n skus] names_row_iff by auto

subsection \<open>Rows that pass validation\<close>

text \<open>
  C5, as amended. A row passes validation when every required address field is non-blank
  after trimming, at least one SKU column holds a positive integer, and every SKU column
  is blank or holds a non-negative integer. The last condition is not in the claim as it
  was stated; the counterexample below shows that it is needed.
\<close>

theorem validate_row_accepts:
  "all_required_present r \<Longrightarrow> list_ex (sku_positive r) skus
     \<Longrightarrow> list_all (sku_acceptable r) skus \<Longrightarrow> validate_row r n skus = []"
  by (simp add: validate_row_Nil_iff all_required_present_def)

theorem validate_row_accepts_witness:
  "all_required_present (ex_row ''a@x.org'' ''Stowe'' ''1'' ''2'')
   \<and> list_ex (sku_positive (ex_row ''a@x.org'' ''Stowe'' ''1'' ''2'')) ex_skus
   \<and> list_all (sku_acceptable (ex_row ''a@x.org'' ''Stowe'' ''1'' ''2'')) ex_skus
   \<and> validate_row (ex_row ''a@x.org'' ''Stowe'' ''1'' ''2'') 2 ex_skus = []"
proof -
  have a: "all_required_present (ex_row ''a@x.org'' ''Stowe'' ''1'' ''2'')"
    by (simp add: ex_simps)
  have b: "list_ex (sku_positive (ex_row ''a@x.org'' ''Stowe'' ''1'' ''2'')) ex_skus"
    by (simp add: ex_simps)
  have c: "list_all (sku_acceptable (ex_row ''a@x.org'' ''Stowe'' ''1'' ''2'')) ex_skus"
    by (simp add: ex_simps)
  show ?thesis using validate_row_accepts [OF a b c] a b c by simp
qed

text \<open>
  C5, as stated, fails: a row with every required field present, the quantity 1 in the
  first SKU column and the quantity -2 in the second is rejected.
\<close>

theorem validate_row_negative_counterexample:
  "all_required_present (ex_row ''a@x.org'' ''Stowe'' ''1'' ''-2'')
   \<and> list_ex (sku_positive (ex_row ''a@x.org'' ''Stowe'' ''1'' ''-2'')) ex_skus
   \<and> validate_row (ex_row ''a@x.org'' ''Stowe'' ''1'' ''-2'') 2 ex_skus
       = [negative_msg 2 ''s02'']"
proof -
  have a: "all_required_present (ex_row ''a@x.org'' ''Stowe'' ''1'' ''-2'')"
    by (simp add: ex_simps)
  have b: "list_ex (sku_positive (ex_row ''a@x.org'' ''Stowe'' ''1'' ''-2'')) ex_skus"
    by (simp add: ex_simps)
  have c: "validate_row (ex_row ''a@x.org'' ''Stowe'' ''1'' ''-2'') 2 ex_skus
      = [negative_msg 2 ''s02'']"
    by (simp add: validate_row_eq ex_simps)
  show ?thesis using a b c by simp
qed

subsection \<open>Missing required fields\<close>


lemma missing_msg_3_city:
  "missing_msg 3 ''city''
     = ''Row 3: missing required field '' @ [CHR 0x27] @ ''city'' @ [CHR 0x27]"
  by (simp add: missing_msg_def show_int_def show_nat.simps digit_char_def)


subsection \<open>What a built payload holds\<close>

lemma build_contents_positive:
  "build_contents r skus cs = Inr cs' \<Longrightarrow> \<forall>x \<in> set cs. 0 < snd x \<Longrightarrow> \<forall>x \<in> set cs'. 0 < snd x"
proof (induction skus arbitrary: cs)
  case Nil
  then show ?case by simp
next
  case (Cons sku skus)
  from Cons.prems(1) obtain qty where q: "sku_qty r sku = Inr qty"
    and rest: "build_contents r skus (if qty > 0 then cs @ [(sku, qty)] else cs) = Inr cs'"
    by (auto simp add: thenE_def split: sum.splits)
  have "\<forall>x \<in> set (if qty > 0 then cs @ [(sku, qty)] else cs). 0 < snd x"
    using Cons.prems(2) by auto
  with Cons.IH [OF rest] show ?case by blast
qed

lemma build_order_payload_Inr:
  assumes "build_order_payload r skus tgs = Inr p"
  shows "build_contents r skus [] = Inr (contents p)"
    and "field_blank r ''last_name'' \<Longrightarrow> ''last_name'' \<notin> fst ` set (address p)"
    and "field_blank r ''line_2'' \<Longrightarrow> ''line_2'' \<notin> fst ` set (address p)"
    and "item_strip r ''email'' = Inr (recipient_email (warehouse_order p))"
  using assms
  by (auto simp add: build_order_payload_def thenE_def Let_def del_key_def field_blank_def
      split: sum.splits if_splits)

lemmas build_simps = build_order_payload_def thenE_def item_strip_def sku_qty_def del_key_def

lemma ex_build:
  "build_order_payload (ex_row ''b@x.org'' ''Stowe'' ''1'' ''2'') ex_skus (JArr [JStr ''promo''])
     = Inr ex_payload_b"
  by (simp add: ex_simps build_simps ex_payload_b_def)

text \<open>
  C7. A payload that \<^verbatim>\<open>build_order_payload\<close> returns has only positive quantities in
  its contents, and its address has no \<^verbatim>\<open>last_name\<close> key, respectively no \<^verbatim>\<open>line_2\<close>
  key, when that field of the row is blank after trimming.
\<close>

theorem build_order_payload_contents_address:
  "build_order_payload r skus tgs = Inr p \<Longrightarrow>
     (\<forall>line \<in> set (contents p). 0 < snd line)
     \<and> (field_blank r ''last_name'' \<longrightarrow> ''last_name'' \<notin> fst ` set (address p))
     \<and> (field_blank r ''line_2'' \<longrightarrow> ''line_2'' \<notin> fst ` set (address p))"
  using build_order_payload_Inr [of r skus tgs p] build_contents_positive [of r skus "[]" "contents p"]
  by simp

theorem build_order_payload_contents_address_witness:
  "build_order_payload (ex_row ''b@x.org'' ''Stowe'' ''1'' ''2'') ex_skus (JArr [JStr ''promo''])
     = Inr ex_payload_b
   \<and> field_blank (ex_row ''b@x.org'' ''Stowe'' ''1'' ''2'') ''last_name''
   \<and> field_blank (ex_row ''b@x.org'' ''Stowe'' ''1'' ''2'') ''line_2''
   \<and> list_all (\<lambda>line. 0 < snd line) (contents ex_payload_b)
   \<and> ''last_name'' \<notin> fst ` set (address ex_payload_b)
   \<and> ''line_2'' \<notin> fst ` set (address ex_payload_b)"
proof -
  have l: "field_blank (ex_row ''b@x.org'' ''Stowe'' ''1'' ''2'') ''last_name''"
    by (simp add: ex_simps)
  have m: "field_blank (ex_row ''b@x.org'' ''Stowe'' ''1'' ''2'') ''line_2''"
    by (simp add: ex_simps)
  show ?thesis
    using build_order_payload_contents_address [OF ex_build] ex_build l m
    by (simp add: list_all_iff)
qed

subsection \<open>Loading the config\<close>

lemma dict_lookup_None_iff: "dict_lookup kvs k = None \<longleftrightarrow> k \<notin> set (map fst kvs)"
  by (simp add: dict_lookup_def map_of_eq_None_iff)

lemma missing_keys_obj:
  "missing_keys (JObj kvs) ks = Inr (filter (\<lambda>k. k \<notin> set (map fst kvs)) ks)"
  by (induction ks) (simp_all add: thenE_def)

lemma missing_keys_arr:
  "missing_keys (JArr xs) ks = Inr (filter (\<lambda>k. JStr k \<notin> set xs) ks)"
  by (induction ks) (simp_all add: thenE_def)

lemma missing_keys_str:
  "missing_keys (JStr s) ks = Inr (filter (\<lambda>k. \<not> contains_str s k) ks)"
  by (induction ks) (simp_all add: thenE_def)

lemma load_config_obj:
  "load_config (Inr (JObj kvs)) =
     (if \<not> list_all (has_key (JObj kvs)) required_keys then
        Inl (SystemExit (''Config missing keys: ''
          @ join '', '' (filter (\<lambda>k. k \<notin> set (map fst kvs)) required_keys)))
      else case thenE (getitem (JObj kvs) ''skus'') py_len of
        Inl e \<Rightarrow> Inl e
      | Inr n \<Rightarrow>
          if n \<noteq> 12 then
            Inl (SystemExit (''Config must list exactly 12 SKUs, got '' @ show_nat n))
          else if getitem (JObj kvs) ''api_key'' = Inr (JStr ''YOUR_API_KEY_HERE'') then
            Inl (SystemExit ''Set your real API key in config.json before running.'')
          else Inr (JObj kvs))"
proof (cases "list_all (has_key (JObj kvs)) required_keys")
  case False
  then have "filter (\<lambda>k. k \<notin> set (map fst kvs)) required_keys \<noteq> []"
    by (auto simp add: filter_empty_conv list_all_iff)
  with False show ?thesis
    by (simp add: load_config_def thenE_def missing_keys_obj)
next
  case True
  then have none: "filter (\<lambda>k. k \<notin> set (map fst kvs)) required_keys = []"
    by (auto simp add: filter_empty_conv list_all_iff)
  from True obtain s a where s: "dict_lookup kvs ''skus'' = Some s"
    and a: "dict_lookup kvs ''api_key'' = Some a"
    using dict_lookup_None_iff [of kvs "''skus''"] dict_lookup_None_iff [of kvs "''api_key''"]
    by (auto simp add: required_keys_def)
  show ?thesis
    using True none s a
    by (simp add: load_config_def thenE_def missing_keys_obj split: sum.splits)
qed

lemma load_config_not_obj:
  "\<forall>kvs. c \<noteq> JObj kvs \<Longrightarrow> \<exists>e. load_config (Inr c) = Inl e"
  by (cases c)
     (simp_all add: load_config_def thenE_def required_keys_def missing_keys_arr missing_keys_str)

lemma not_obj_unacceptable: "\<forall>kvs. c \<noteq> JObj kvs \<Longrightarrow> \<not> config_acceptable c"
  by (cases c) (simp_all add: config_acceptable_def required_keys_def)

lemma load_config_acceptable: "config_acceptable c \<Longrightarrow> load_config (Inr c) = Inr c"
proof -
  assume a: "config_acceptable c"
  then obtain kvs where c: "c = JObj kvs" using not_obj_unacceptable by blast
  from a show ?thesis unfolding c
    by (simp add: load_config_obj config_acceptable_def)
qed

lemma load_config_unacceptable: "\<not> config_acceptable c \<Longrightarrow> \<exists>e. load_config (Inr c) = Inl e"
proof (cases "\<exists>kvs. c = JObj kvs")
  case False
  then show ?thesis using load_config_not_obj by blast
next
  case True
  assume n: "\<not> config_acceptable c"
  from True obtain kvs where c: "c = JObj kvs" by blast
  from n show ?thesis unfolding c
    by (auto simp add: load_config_obj config_acceptable_def split: sum.splits)
qed

lemma load_config_Inr: "load_config file = Inr c \<Longrightarrow> file = Inr c \<and> config_acceptable c"
proof -
  assume l: "load_config file = Inr c"
  then obtain c0 where f: "file = Inr c0"
    by (cases "file") (simp_all add: load_config_def thenE_def)
  have "config_acceptable c0"
    using l f load_config_unacceptable [of c0] by auto
  with l f load_config_acceptable [of c0] show ?thesis by simp
qed

lemma ex_config_acceptable: "config_acceptable (ex_config ex_skus)"
  by (simp add: config_acceptable_def ex_config_def ex_skus_def required_keys_def thenE_def
      dict_lookup_def)

lemma ex_config_short: "\<not> config_acceptable (ex_config (tl ex_skus))"
  by (simp add: config_acceptable_def ex_config_def ex_skus_def required_keys_def thenE_def
      dict_lookup_def)

text \<open>
  C8. \<^verbatim>\<open>load_config\<close> returns the parsed config when the four required keys are
  there, \<^verbatim>\<open>skus\<close> has exactly 12 entries and \<^verbatim>\<open>api_key\<close> is not the placeholder,
  and fails otherwise; a run whose config fails to load ends with that failure and has
  done nothing before, in particular it has not opened the CSV file.
\<close>

theorem load_config_checks:
  "(config_acceptable c \<longrightarrow> load_config (Inr c) = Inr c)
   \<and> (\<not> config_acceptable c \<longrightarrow> (\<exists>e. load_config (Inr c) = Inl e))
   \<and> (\<forall>e. load_config (config_file w) = Inl e \<longrightarrow>
        run w csv_path dry_run = \<lparr>events = [], ended = Some e\<rparr>)"
  using load_config_acceptable [of c] load_config_unacceptable [of c]
  by (auto simp add: run_def)

theorem load_config_checks_witness:
  "config_acceptable (ex_config ex_skus)
   \<and> load_config (Inr (ex_config ex_skus)) = Inr (ex_config ex_skus)
   \<and> \<not> config_acceptable (ex_config (tl ex_skus))
   \<and> load_config (Inr (ex_config (tl ex_skus)))
        = Inl (SystemExit ''Config must list exactly 12 SKUs, got 11'')
   \<and> run (ex_world (ex_config (tl ex_skus)) [] (\<lambda>n u k p. Raised OSError)) ''orders.csv'' False
        = \<lparr>events = [], ended = Some (SystemExit ''Config must list exactly 12 SKUs, got 11'')\<rparr>"
proof -
  have l: "load_config (Inr (ex_config (tl ex_skus)))
      = Inl (SystemExit ''Config must list exactly 12 SKUs, got 11'')"
    by (simp add: load_config_obj ex_config_def ex_skus_def required_keys_def thenE_def
        dict_lookup_def show_nat.simps digit_char_def)
  have w: "config_file (ex_world (ex_config (tl ex_skus)) [] (\<lambda>n u k p. Raised OSError))
      = Inr (ex_config (tl ex_skus))"
    by (simp add: ex_world_def)
  show ?thesis
    using load_config_checks [of "ex_config ex_skus"
        "ex_world (ex_config (tl ex_skus)) [] (\<lambda>n u k p. Raised OSError)" "''orders.csv''" False]
      load_config_checks [of "ex_config (tl ex_skus)"]
      ex_config_acceptable ex_config_short l w
    by simp
qed

subsection \<open>The loops of the run\<close>

lemma length_py_enumerate [simp]: "length (py_enumerate n xs) = length xs"
  by (induction xs arbitrary: n) simp_all

lemma nth_py_enumerate: "k < length xs \<Longrightarrow> py_enumerate n xs ! k = (n + int k, xs ! k)"
proof (induction xs arbitrary: n k)
  case Nil
  then show ?case by simp
next
  case (Cons x xs)
  then show ?case by (cases k) simp_all
qed

lemma map_snd_py_enumerate [simp]: "map snd (py_enumerate n xs) = xs"
  by (induction xs arbitrary: n) simp_all

lemma validate_rows_eq:
  "validate_rows skus nrs acc = acc @ concat (map (\<lambda>ir. validate_row (snd ir) (fst ir) skus) nrs)"
  by (induction nrs arbitrary: acc) auto

lemma success_result_items:
  "getitem (success_result idx email oid body) ''row'' = Inr (JInt idx)"
  "getitem (success_result idx email oid body) ''status'' = Inr (JStr ''success'')"
  "getitem (success_result idx email oid body) ''order_id'' = Inr oid"
  "getitem (success_result idx email oid body) ''response'' = Inr body"
  by (simp_all add: success_result_def dict_lookup_def)

lemma http_failure_result_items:
  "getitem (http_failure_result idx email code err) ''row'' = Inr (JInt idx)"
  "getitem (http_failure_result idx email code err) ''status'' = Inr (JStr ''failed'')"
  by (simp_all add: http_failure_result_def dict_lookup_def)

lemma url_failure_result_items:
  "getitem (url_failure_result idx email reason) ''row'' = Inr (JInt idx)"
  "getitem (url_failure_result idx email reason) ''status'' = Inr (JStr ''failed'')"
  by (simp_all add: url_failure_result_def dict_lookup_def)

lemmas result_items = success_result_items http_failure_result_items url_failure_result_items

lemma handle_outcome_trace: "handle_outcome idx email st out = (st', ex) \<Longrightarrow> trace st' = trace st"
  by (cases out)
     (auto simp add: record_success_def record_failure_def split: sum.splits)

lemma handle_outcome_Some: "handle_outcome idx email st out = (st', Some e) \<Longrightarrow> st' = st"
  by (cases out) (auto split: sum.splits)

lemma handle_outcome_None:
  "handle_outcome idx email st out = (st', None) \<Longrightarrow> \<exists>res. step_ok idx st st' res"
  by (cases out)
     (auto simp add: step_ok_def record_success_def record_failure_def result_items
        success_result_ok_def failed_result_def split: sum.splits)

lemma order_id_of_obj: "order_id_of (JObj kvs) \<noteq> Inl e"
  by (simp add: order_id_of_def thenE_def)

lemma handle_outcome_recoverable:
  "recoverable out \<Longrightarrow> \<exists>st'. handle_outcome idx email st out = (st', None)"
  by (cases out) (auto simp add: order_id_of_obj split: json.splits sum.splits)

lemma create_order_str:
  "create_order n k (JStr u) ak p = n k (request_url u) ak p"
  by (simp add: create_order_def)

lemma send_order_trace:
  "send_order n bu ak skus tgs idx r st = (st', ex) \<Longrightarrow>
     trace st' = trace st \<or> trace st' = trace st @ post_of skus tgs ak (idx, r)"
  by (auto simp add: send_order_def post_of_def dest!: handle_outcome_trace
        split: sum.splits if_splits)

lemma send_order_Some:
  "send_order n bu ak skus tgs idx r st = (st', Some e) \<Longrightarrow>
     results st' = results st \<and> succeeded st' = succeeded st \<and> failed st' = failed st"
  by (auto simp add: send_order_def dest!: handle_outcome_Some split: sum.splits if_splits)

lemma send_order_None:
  "send_order n bu ak skus tgs idx r st = (st', None) \<Longrightarrow> \<exists>res. step_ok idx st st' res"
  by (auto simp add: send_order_def step_ok_def dest!: handle_outcome_None
        split: sum.splits if_splits)

lemma send_order_recoverable:
  assumes "builds skus tgs r" and "\<forall>k url p. recoverable (n k url ak p)"
  shows "\<exists>st'. send_order n (JStr u) ak skus tgs idx r st = (st', None)
           \<and> trace st' = trace st @ post_of skus tgs ak (idx, r)"
proof -
  from assms(1) obtain p where p: "build_order_payload r skus tgs = Inr p"
    by (auto simp add: builds_def split: sum.splits)
  then obtain email where e: "item_strip r ''email'' = Inr email"
    using build_order_payload_Inr(4) by blast
  let ?st1 = "st\<lparr>trace := trace st @ [OrderPosted idx ak p]\<rparr>"
  from assms(2) have "recoverable (n (length (results st)) (request_url u) ak p)" by blast
  then obtain st' where h: "handle_outcome idx email ?st1
      (n (length (results st)) (request_url u) ak p) = (st', None)"
    using handle_outcome_recoverable by blast
  then have "trace st' = trace ?st1" by (rule handle_outcome_trace)
  with p e h show ?thesis
    by (simp add: send_order_def create_order_str post_of_def)
qed

lemma rows_numbered_Nil [simp]: "rows_numbered n []"
  by (simp add: rows_numbered_def)

lemma rows_numbered_Cons:
  "getitem res ''row'' = Inr (JInt n) \<Longrightarrow> rows_numbered (n + 1) new \<Longrightarrow> rows_numbered n (res # new)"
  unfolding rows_numbered_def
proof (intro allI impI)
  fix k
  assume r: "getitem res ''row'' = Inr (JInt n)"
    and t: "\<forall>k<length new. getitem (new ! k) ''row'' = Inr (JInt (n + 1 + int k))"
    and k: "k < length (res # new)"
  show "getitem ((res # new) ! k) ''row'' = Inr (JInt (n + int k))"
  proof (cases k)
    case 0
    with r show ?thesis by simp
  next
    case (Suc j)
    with k have "j < length new" by simp
    with t have "getitem (new ! j) ''row'' = Inr (JInt (n + 1 + int j))" by blast
    with Suc show ?thesis by (simp add: add.assoc)
  qed
qed

lemma send_orders_loop_ok:
  "send_orders nw bu ak skus tgs (py_enumerate n rows) st = (st', ex) \<Longrightarrow>
     \<exists>new. loop_ok n (length rows) ex st st' new"
proof (induction rows arbitrary: n st)
  case Nil
  then show ?case by (auto simp add: loop_ok_def)
next
  case (Cons r rows)
  obtain st1 ex1 where s: "send_order nw bu ak skus tgs n r st = (st1, ex1)"
    by (cases "send_order nw bu ak skus tgs n r st")
  show ?case
  proof (cases ex1)
    case (Some e)
    with s Cons.prems have "st' = st1" "ex = Some e" by simp_all
    with s Some send_order_Some [of nw bu ak skus tgs n r st st1 e]
    have "loop_ok n (length (r # rows)) ex st st' []"
      by (simp add: loop_ok_def)
    then show ?thesis by blast
  next
    case None
    with s Cons.prems
    have rest: "send_orders nw bu ak skus tgs (py_enumerate (n + 1) rows) st1 = (st', ex)"
      by simp
    from s None obtain res where st: "step_ok n st st1 res"
      using send_order_None by blast
    from Cons.IH [OF rest] obtain new where l: "loop_ok (n + 1) (length rows) ex st1 st' new"
      by blast
    from st l have "loop_ok n (length (r # rows)) ex st st' (res # new)"
      by (auto simp add: loop_ok_def step_ok_def rows_numbered_Cons)
    then show ?thesis by blast
  qed
qed

lemma handle_outcome_result:
  "handle_outcome idx email st out = (st', None) \<Longrightarrow>
     \<exists>res. results st' = results st @ [res] \<and> getitem res ''row'' = Inr (JInt idx)
       \<and> getitem res ''email'' = Inr (JStr email)"
  by (cases out)
     (auto simp add: record_success_def record_failure_def success_result_def
        http_failure_result_def url_failure_result_def dict_lookup_def split: sum.splits)

lemma send_order_result:
  "send_order nw bu ak skus tgs idx r st = (st', None) \<Longrightarrow>
     \<exists>res. results st' = results st @ [res] \<and> result_of_row idx r res"
  by (auto simp add: send_order_def result_of_row_def dest!: handle_outcome_result
        split: sum.splits if_splits)

lemma send_orders_results:
  "send_orders nw bu ak skus tgs (py_enumerate n rows) st = (st', ex) \<Longrightarrow>
     \<exists>new. results st' = results st @ new \<and> length new \<le> length rows
       \<and> (\<forall>k < length new. result_of_row (n + int k) (rows ! k) (new ! k))"
proof (induction rows arbitrary: n st)
  case Nil
  then show ?case by simp
next
  case (Cons r rows)
  obtain st1 ex1 where s: "send_order nw bu ak skus tgs n r st = (st1, ex1)"
    by (cases "send_order nw bu ak skus tgs n r st")
  show ?case
  proof (cases ex1)
    case (Some e)
    with s Cons.prems have "st' = st1" by simp
    with s Some send_order_Some [of nw bu ak skus tgs n r st st1 e]
    have "results st' = results st @ []" by simp
    then show ?thesis by force
  next
    case None
    with s Cons.prems
    have rest: "send_orders nw bu ak skus tgs (py_enumerate (n + 1) rows) st1 = (st', ex)"
      by simp
    from s None obtain res where r1: "results st1 = results st @ [res]"
      and r2: "result_of_row n r res"
      using send_order_result by blast
    from Cons.IH [OF rest] obtain new where n1: "results st' = results st1 @ new"
      and n2: "length new \<le> length rows"
      and n3: "\<forall>k < length new. result_of_row (n + 1 + int k) (rows ! k) (new ! k)"
      by blast
    have "\<forall>k < length (res # new). result_of_row (n + int k) ((r # rows) ! k) ((res # new) ! k)"
    proof (intro allI impI)
      fix k assume k: "k < length (res # new)"
      show "result_of_row (n + int k) ((r # rows) ! k) ((res # new) ! k)"
      proof (cases k)
        case 0
        with r2 show ?thesis by simp
      next
        case (Suc j)
        with k have "j < length new" by simp
        with n3 have "result_of_row (n + 1 + int j) (rows ! j) (new ! j)" by blast
        with Suc show ?thesis by (simp add: add.assoc)
      qed
    qed
    with r1 n1 n2 have "results st' = results st @ (res # new)
        \<and> length (res # new) \<le> length (r # rows)
        \<and> (\<forall>k < length (res # new).
              result_of_row (n + int k) ((r # rows) ! k) ((res # new) ! k))"
      by simp
    then show ?thesis by blast
  qed
qed

lemma list_all_is_post_post_of: "list_all is_post (post_of skus tgs ak ir)"
  by (simp add: post_of_def split: sum.splits)

lemma send_orders_trace:
  "send_orders nw bu ak skus tgs nrs st = (st', ex) \<Longrightarrow>
     \<exists>evs. trace st' = trace st @ evs \<and> list_all is_post evs"
proof (induction nrs arbitrary: st)
  case Nil
  then show ?case by simp
next
  case (Cons ir nrs)
  obtain idx r where ir: "ir = (idx, r)" by (cases ir)
  obtain st1 ex1 where s: "send_order nw bu ak skus tgs idx r st = (st1, ex1)"
    by (cases "send_order nw bu ak skus tgs idx r st")
  from send_order_trace [OF s] list_all_is_post_post_of [of skus tgs ak "(idx, r)"]
  obtain evs1 where e1: "trace st1 = trace st @ evs1" "list_all is_post evs1"
    by auto
  show ?case
  proof (cases ex1)
    case (Some e)
    with s ir Cons.prems have "st' = st1" by simp
    with e1 show ?thesis by blast
  next
    case None
    with s ir Cons.prems have "send_orders nw bu ak skus tgs nrs st1 = (st', ex)" by simp
    from Cons.IH [OF this] obtain evs where "trace st' = trace st1 @ evs" "list_all is_post evs"
      by blast
    with e1 have "trace st' = trace st @ (evs1 @ evs) \<and> list_all is_post (evs1 @ evs)" by simp
    then show ?thesis by blast
  qed
qed

lemma send_orders_recoverable:
  assumes "list_all (builds skus tgs) rows" and "\<forall>k url p. recoverable (nw k url ak p)"
  shows "\<exists>st'. send_orders nw (JStr u) ak skus tgs (py_enumerate n rows) st = (st', None)
           \<and> trace st' = trace st @ concat (map (post_of skus tgs ak) (py_enumerate n rows))"
  using assms(1)
proof (induction rows arbitrary: n st)
  case Nil
  then show ?case by simp
next
  case (Cons r rows)
  then have b: "builds skus tgs r" and bs: "list_all (builds skus tgs) rows" by simp_all
  from send_order_recoverable [of skus tgs r nw ak u n st] b assms(2)
  obtain st1 where s: "send_order nw (JStr u) ak skus tgs n r st = (st1, None)"
    and t: "trace st1 = trace st @ post_of skus tgs ak (n, r)" by blast
  from Cons.IH [OF bs, of "n + 1" st1]
  obtain st' where r: "send_orders nw (JStr u) ak skus tgs (py_enumerate (n + 1) rows) st1 = (st', None)"
    and t': "trace st' = trace st1 @ concat (map (post_of skus tgs ak) (py_enumerate (n + 1) rows))"
    by blast
  from s r t t' show ?case by simp
qed

lemma dry_run_rows_events:
  "dry_run_rows skus tgs nrs evs = (evs', ex) \<Longrightarrow>
     \<exists>new. evs' = evs @ new \<and> list_all (\<lambda>ev. \<not> is_post ev \<and> \<not> is_summary ev) new"
proof (induction nrs arbitrary: evs)
  case Nil
  then show ?case by simp
next
  case (Cons ir nrs)
  obtain idx r where ir: "ir = (idx, r)" by (cases ir)
  show ?case
  proof (cases "build_order_payload r skus tgs")
    case (Inl e)
    with Cons.prems ir show ?thesis by simp
  next
    case (Inr p)
    show ?thesis
    proof (cases "item_strip r ''email''")
      case (Inl e)
      with Cons.prems ir Inr show ?thesis by simp
    next
      case em: (Inr email)
      with Cons.prems ir Inr
      have "dry_run_rows skus tgs nrs (evs @ [DryRunReported idx email (length (contents p))])
          = (evs', ex)" by simp
      from Cons.IH [OF this] obtain new
        where "evs' = (evs @ [DryRunReported idx email (length (contents p))]) @ new"
          and "list_all (\<lambda>ev. \<not> is_post ev \<and> \<not> is_summary ev) new" by blast
      then have "evs' = evs @ (DryRunReported idx email (length (contents p)) # new)
          \<and> list_all (\<lambda>ev. \<not> is_post ev \<and> \<not> is_summary ev)
               (DryRunReported idx email (length (contents p)) # new)" by simp
      then show ?thesis by blast
    qed
  qed
qed

lemma config_items:
  assumes "config_acceptable c"
  shows "\<exists>s t b a. getitem c ''skus'' = Inr s \<and> getitem c ''tags'' = Inr t
           \<and> getitem c ''theseus_base_url'' = Inr b \<and> getitem c ''api_key'' = Inr a"
proof -
  from assms obtain kvs where c: "c = JObj kvs" using not_obj_unacceptable by blast
  from assms have "\<forall>k \<in> set required_keys. dict_lookup kvs k \<noteq> None"
    unfolding c by (simp add: config_acceptable_def list_all_iff dict_lookup_None_iff)
  then show ?thesis unfolding c
    by (auto simp add: required_keys_def)
qed

text \<open>The run, once the config and the CSV file have been read.\<close>

lemma run_rows:
  assumes "load_config (config_file w) = Inr c"
    and "getitem c ''skus'' = Inr sj"
    and "read_orders_csv (csv_file w) sj = Inr rows"
  shows "\<exists>tgs bu. getitem c ''tags'' = Inr tgs \<and> getitem c ''theseus_base_url'' = Inr bu
           \<and> run w csv_path dry_run
               = process_rows w csv_path dry_run c (str_items (arr_items sj)) tgs bu rows"
proof -
  from assms(1) have "config_acceptable c" using load_config_Inr by blast
  from config_items [OF this] assms(2) obtain tgs bu
    where "getitem c ''tags'' = Inr tgs" "getitem c ''theseus_base_url'' = Inr bu" by auto
  with assms show ?thesis by (simp add: run_def thenE_def)
qed

lemma run_reaches_rows:
  assumes "ev \<in> set (events (run w csv_path dry_run))" and "ev \<noteq> CsvOpened"
  shows "\<exists>c sj tgs bu rows. load_config (config_file w) = Inr c \<and> getitem c ''skus'' = Inr sj
           \<and> getitem c ''tags'' = Inr tgs \<and> getitem c ''theseus_base_url'' = Inr bu
           \<and> read_orders_csv (csv_file w) sj = Inr rows
           \<and> run w csv_path dry_run
               = process_rows w csv_path dry_run c (str_items (arr_items sj)) tgs bu rows"
  using assms
  by (auto simp add: run_def thenE_def split: sum.splits if_splits)

subsection \<open>Validation errors end the run\<close>

lemma validate_rows_mem:
  "ir \<in> set nrs \<Longrightarrow> set (validate_row (snd ir) (fst ir) skus) \<subseteq> set (validate_rows skus nrs [])"
  by (auto simp add: validate_rows_eq)

text \<open>
  C2. When the config and the CSV file have been read and \<^verbatim>\<open>validate_row\<close> gives an
  error for some row, then, in a dry run or not, the run logs every validation error and
  ends with the validation failure, exit status 1, and no order has been posted.
\<close>

theorem validation_errors_abort_run:
  assumes "load_config (config_file w) = Inr c"
    and "getitem c ''skus'' = Inr sj"
    and "read_orders_csv (csv_file w) sj = Inr rows"
    and "(idx, r) \<in> set (py_enumerate 2 rows)"
    and "validate_row r idx (str_items (arr_items sj)) \<noteq> []"
  shows "events (run w csv_path dry_run)
           = CsvOpened # map ErrorLogged
               (validate_rows (str_items (arr_items sj)) (py_enumerate 2 rows) [])
         \<and> set (validate_row r idx (str_items (arr_items sj)))
             \<subseteq> set (validate_rows (str_items (arr_items sj)) (py_enumerate 2 rows) [])
         \<and> ended (run w csv_path dry_run)
             = Some (validation_failure
                 (validate_rows (str_items (arr_items sj)) (py_enumerate 2 rows) []))
         \<and> exit_status (run w csv_path dry_run) = 1
         \<and> filter is_post (events (run w csv_path dry_run)) = []"
proof -
  let ?skus = "str_items (arr_items sj)"
  let ?errs = "validate_rows ?skus (py_enumerate 2 rows) []"
  from run_rows [OF assms(1-3)] obtain tgs bu
    where run: "run w csv_path dry_run = process_rows w csv_path dry_run c ?skus tgs bu rows"
    by blast
  have sub: "set (validate_row r idx ?skus) \<subseteq> set ?errs"
    using validate_rows_mem [OF assms(4), of ?skus] by simp
  with assms(5) have ne: "?errs \<noteq> []" by auto
  have post: "filter is_post (map ErrorLogged ?errs) = []"
    by (simp add: filter_empty_conv)
  from run ne sub post show ?thesis
    by (simp add: process_rows_def Let_def validation_failure_def exit_status_def)
qed

subsection \<open>The summary\<close>

lemma summary_written_send:
  assumes "SummaryWritten s \<in> set (events (run w csv_path dry_run))"
  shows "\<exists>c sj tgs bu ak rows st.
           load_config (config_file w) = Inr c \<and> getitem c ''skus'' = Inr sj
           \<and> read_orders_csv (csv_file w) sj = Inr rows
           \<and> send_orders (net w) bu ak (str_items (arr_items sj)) tgs (py_enumerate 2 rows)
                \<lparr>succeeded = 0, failed = 0, results = [], trace = [CsvOpened]\<rparr> = (st, None)
           \<and> s = JObj [(''run_at'', JStr (run_at w)), (''csv'', JStr csv_path),
                       (''total'', JInt (int (length rows))),
                       (''succeeded'', JInt (int (succeeded st))),
                       (''failed'', JInt (int (failed st))),
                       (''orders'', JArr (results st))]"
proof -
  from run_reaches_rows [OF assms] obtain c sj tgs bu rows
    where c: "load_config (config_file w) = Inr c" and sj: "getitem c ''skus'' = Inr sj"
      and rows: "read_orders_csv (csv_file w) sj = Inr rows"
      and run: "run w csv_path dry_run
          = process_rows w csv_path dry_run c (str_items (arr_items sj)) tgs bu rows"
    by auto
  let ?skus = "str_items (arr_items sj)"
  let ?st0 = "\<lparr>succeeded = 0, failed = 0, results = [], trace = [CsvOpened]\<rparr>"
  from assms run
  have ev: "SummaryWritten s \<in> set (events (process_rows w csv_path dry_run c ?skus tgs bu rows))"
    by simp
  have novalid: "validate_rows ?skus (py_enumerate 2 rows) [] = []"
  proof (rule ccontr)
    assume "validate_rows ?skus (py_enumerate 2 rows) [] \<noteq> []"
    with ev show False by (auto simp add: process_rows_def Let_def)
  qed
  have nodry: "\<not> dry_run"
  proof
    assume d: "dry_run"
    obtain evs ex where dr: "dry_run_rows ?skus tgs (py_enumerate 2 rows) [CsvOpened] = (evs, ex)"
      by (cases "dry_run_rows ?skus tgs (py_enumerate 2 rows) [CsvOpened]")
    from dry_run_rows_events [OF dr] have "SummaryWritten s \<notin> set evs"
      by (force simp add: list_all_iff)
    with ev d dr novalid show False by (simp add: process_rows_def)
  qed
  from ev novalid nodry
  have ev2: "SummaryWritten s \<in> set (events (send_phase w csv_path c ?skus tgs bu rows))"
    by (simp add: process_rows_def)
  then obtain ak where ak: "getitem c ''api_key'' = Inr ak"
    by (cases "getitem c ''api_key''") (simp_all add: send_phase_def)
  obtain st ex where so: "send_orders (net w) bu ak ?skus tgs (py_enumerate 2 rows) ?st0 = (st, ex)"
    by (cases "send_orders (net w) bu ak ?skus tgs (py_enumerate 2 rows) ?st0")
  from send_orders_trace [OF so] have nos: "SummaryWritten s \<notin> set (trace st)"
    by (force simp add: list_all_iff)
  have exn: "ex = None"
  proof (cases ex)
    case (Some e)
    with ev2 ak so nos show ?thesis by (simp add: send_phase_def)
  qed simp
  from ev2 ak so exn nos
  have s: "s = JObj [(''run_at'', JStr (run_at w)), (''csv'', JStr csv_path),
                     (''total'', JInt (int (length rows))),
                     (''succeeded'', JInt (int (succeeded st))),
                     (''failed'', JInt (int (failed st))),
                     (''orders'', JArr (results st))]"
    by (simp add: send_phase_def)
  from c sj rows so exn s show ?thesis by blast
qed

lemma summary_written_loop:
  assumes "SummaryWritten s \<in> set (events (run w csv_path dry_run))"
  shows "\<exists>c sj rows st new.
           load_config (config_file w) = Inr c \<and> getitem c ''skus'' = Inr sj
           \<and> read_orders_csv (csv_file w) sj = Inr rows
           \<and> loop_ok 2 (length rows) None
                \<lparr>succeeded = 0, failed = 0, results = [], trace = [CsvOpened]\<rparr> st new
           \<and> s = JObj [(''run_at'', JStr (run_at w)), (''csv'', JStr csv_path),
                       (''total'', JInt (int (length rows))),
                       (''succeeded'', JInt (int (succeeded st))),
                       (''failed'', JInt (int (failed st))),
                       (''orders'', JArr (results st))]"
proof -
  from summary_written_send [OF assms] obtain c sj tgs bu ak rows st
    where c: "load_config (config_file w) = Inr c" "getitem c ''skus'' = Inr sj"
        "read_orders_csv (csv_file w) sj = Inr rows"
      and so: "send_orders (net w) bu ak (str_items (arr_items sj)) tgs (py_enumerate 2 rows)
          \<lparr>succeeded = 0, failed = 0, results = [], trace = [CsvOpened]\<rparr> = (st, None)"
      and s: "s = JObj [(''run_at'', JStr (run_at w)), (''csv'', JStr csv_path),
                        (''total'', JInt (int (length rows))),
                        (''succeeded'', JInt (int (succeeded st))),
                        (''failed'', JInt (int (failed st))),
                        (''orders'', JArr (results st))]"
    by blast
  from send_orders_loop_ok [OF so] obtain new
    where "loop_ok 2 (length rows) None
        \<lparr>succeeded = 0, failed = 0, results = [], trace = [CsvOpened]\<rparr> st new"
    by blast
  with c s show ?thesis by blast
qed

text \<open>
  C3. A summary that a run has written holds, when its items are read back, the number of
  retained rows as \<^verbatim>\<open>total\<close>, counts \<^verbatim>\<open>succeeded\<close> and \<^verbatim>\<open>failed\<close> whose sum is that
  number, and a list \<^verbatim>\<open>orders\<close> of that length.
\<close>

theorem run_summary_counts:
  assumes "SummaryWritten s \<in> set (events (run w csv_path dry_run))"
  shows "\<exists>c sj rows n_ok n_failed os.
           load_config (config_file w) = Inr c \<and> getitem c ''skus'' = Inr sj
           \<and> read_orders_csv (csv_file w) sj = Inr rows
           \<and> getitem s ''total'' = Inr (JInt (int (length rows)))
           \<and> getitem s ''succeeded'' = Inr (JInt (int n_ok))
           \<and> getitem s ''failed'' = Inr (JInt (int n_failed))
           \<and> getitem s ''orders'' = Inr (JArr os)
           \<and> n_ok + n_failed = length rows \<and> length os = length rows"
proof -
  from summary_written_loop [OF assms] obtain c sj rows st new
    where c: "load_config (config_file w) = Inr c" "getitem c ''skus'' = Inr sj"
        "read_orders_csv (csv_file w) sj = Inr rows"
      and l: "loop_ok 2 (length rows) None
          \<lparr>succeeded = 0, failed = 0, results = [], trace = [CsvOpened]\<rparr> st new"
      and s: "s = JObj [(''run_at'', JStr (run_at w)), (''csv'', JStr csv_path),
                        (''total'', JInt (int (length rows))),
                        (''succeeded'', JInt (int (succeeded st))),
                        (''failed'', JInt (int (failed st))),
                        (''orders'', JArr (results st))]"
    by blast
  from l have len: "length (results st) = length rows"
    and cnt: "succeeded st + failed st = length rows"
    by (simp_all add: loop_ok_def)
  have "getitem s ''total'' = Inr (JInt (int (length rows)))"
    "getitem s ''succeeded'' = Inr (JInt (int (succeeded st)))"
    "getitem s ''failed'' = Inr (JInt (int (failed st)))"
    "getitem s ''orders'' = Inr (JArr (results st))"
    unfolding s by (simp_all add: dict_lookup_def)
  with c len cnt show ?thesis by blast
qed

subsection \<open>Failed sends\<close>

lemma length_posts:
  "list_all (builds skus tgs) rows \<Longrightarrow>
     length (concat (map (post_of skus tgs ak) (py_enumerate n rows))) = length rows"
  by (induction rows arbitrary: n)
     (auto simp add: builds_def post_of_def split: sum.splits)

text \<open>
  When no exception leaves the send loop. Take a run that is not a dry run, whose rows
  have passed validation and whose payloads can be built, with a string as base URL, and
  in which every call of \<^verbatim>\<open>create_order\<close> either returns a JSON object or raises
  \<^verbatim>\<open>HTTPError\<close> or \<^verbatim>\<open>URLError\<close>. Then one order is posted for every retained row, in
  order; the summary is written after the last of them, with one result per row, numbered
  from 2; and the run ends with a failure if and only if the number of failed results is
  not zero.
\<close>

lemma send_loop_completes:
  assumes "load_config (config_file w) = Inr c"
    and "getitem c ''skus'' = Inr sj"
    and "getitem c ''tags'' = Inr tgs"
    and "getitem c ''theseus_base_url'' = Inr (JStr u)"
    and "getitem c ''api_key'' = Inr ak"
    and "read_orders_csv (csv_file w) sj = Inr rows"
    and "validate_rows (str_items (arr_items sj)) (py_enumerate 2 rows) [] = []"
    and "list_all (builds (str_items (arr_items sj)) tgs) rows"
    and "\<forall>k url p. recoverable (net w k url ak p)"
  shows "\<exists>s os n_failed.
           events (run w csv_path False)
             = CsvOpened # concat (map (post_of (str_items (arr_items sj)) tgs ak)
                                     (py_enumerate 2 rows)) @ [SummaryWritten s]
           \<and> length (concat (map (post_of (str_items (arr_items sj)) tgs ak)
                                (py_enumerate 2 rows))) = length rows
           \<and> getitem s ''orders'' = Inr (JArr os)
           \<and> length os = length rows
           \<and> rows_numbered 2 os
           \<and> getitem s ''failed'' = Inr (JInt (int n_failed))
           \<and> n_failed = length (filter failed_result os)
           \<and> ended (run w csv_path False)
               = (if n_failed = 0 then None else Some (send_failure n_failed))"
proof -
  let ?skus = "str_items (arr_items sj)"
  let ?st0 = "\<lparr>succeeded = 0, failed = 0, results = [], trace = [CsvOpened]\<rparr>"
  let ?posts = "concat (map (post_of ?skus tgs ak) (py_enumerate 2 rows))"
  from run_rows [OF assms(1,2,6), of csv_path False] assms(3,4)
  have run: "run w csv_path False = process_rows w csv_path False c ?skus tgs (JStr u) rows"
    by auto
  from send_orders_recoverable [of ?skus tgs rows "net w" ak u 2 ?st0] assms(8,9)
  obtain st where so: "send_orders (net w) (JStr u) ak ?skus tgs (py_enumerate 2 rows) ?st0
        = (st, None)"
    and tr: "trace st = CsvOpened # ?posts" by auto
  from send_orders_loop_ok [OF so] obtain new where "loop_ok 2 (length rows) None ?st0 st new"
    by blast
  then have res: "length (results st) = length rows" "rows_numbered 2 (results st)"
    "failed st = length (filter failed_result (results st))"
    by (simp_all add: loop_ok_def)
  let ?s = "JObj [(''run_at'', JStr (run_at w)), (''csv'', JStr csv_path),
                  (''total'', JInt (int (length rows))),
                  (''succeeded'', JInt (int (succeeded st))),
                  (''failed'', JInt (int (failed st))),
                  (''orders'', JArr (results st))]"
  have ev: "events (run w csv_path False) = CsvOpened # ?posts @ [SummaryWritten ?s]"
    and en: "ended (run w csv_path False)
        = (if failed st = 0 then None else Some (send_failure (failed st)))"
    using run so tr assms(5,7)
    by (simp_all add: process_rows_def send_phase_def send_failure_def)
  have items: "getitem ?s ''orders'' = Inr (JArr (results st))"
    "getitem ?s ''failed'' = Inr (JInt (int (failed st)))"
    by (simp_all add: dict_lookup_def)
  from ev en items res length_posts [OF assms(8), of ak 2] show ?thesis
    by blast
qed

subsection \<open>Row numbers\<close>

lemma py_enumerate_map:
  "py_enumerate n xs = map (\<lambda>k. (n + int k, xs ! k)) [0..<length xs]"
  by (rule nth_equalityI) (simp_all add: nth_py_enumerate)

lemma read_orders_csv_rows:
  "read_orders_csv (Inr (h # data)) sj = Inr rows \<Longrightarrow>
     rows = map (dict_row h) (filter (retained h) data)"
  by (cases sj) (auto simp add: read_orders_csv_def thenE_def Let_def split: if_splits)

lemma filter_take_length:
  "i \<le> length xs \<Longrightarrow> (length (filter P (take i xs)) = i) = (\<forall>j<i. P (xs ! j))"
proof
  assume i: "i \<le> length xs" and l: "length (filter P (take i xs)) = i"
  show "\<forall>j<i. P (xs ! j)"
  proof (intro allI impI, rule ccontr)
    fix j assume j: "j < i" and n: "\<not> P (xs ! j)"
    with i have "xs ! j \<in> set (take i xs)"
      by (metis in_set_conv_nth length_take min.absorb2 nth_take)
    with n have "length (filter P (take i xs)) < length (take i xs)"
      using length_filter_less [of "xs ! j" "take i xs" P] by blast
    with i l show False by simp
  qed
next
  assume i: "i \<le> length xs" and a: "\<forall>j<i. P (xs ! j)"
  have "\<forall>x \<in> set (take i xs). P x"
  proof
    fix x assume "x \<in> set (take i xs)"
    then obtain j where "j < length (take i xs)" "take i xs ! j = x"
      by (auto simp add: in_set_conv_nth)
    with i a show "P x" by auto
  qed
  then have "filter P (take i xs) = take i xs" by (simp add: filter_id_conv)
  with i show "length (filter P (take i xs)) = i" by simp
qed

lemma filter_nth_position:
  assumes "i < length xs" and "P (xs ! i)"
  shows "length (filter P (take i xs)) < length (filter P xs)"
    and "filter P xs ! length (filter P (take i xs)) = xs ! i"
proof -
  have "xs = take i xs @ xs ! i # drop (Suc i) xs"
    using assms(1) by (rule id_take_nth_drop)
  then have "filter P xs = filter P (take i xs @ xs ! i # drop (Suc i) xs)" by simp
  with assms(2) have f: "filter P xs = filter P (take i xs) @ xs ! i # filter P (drop (Suc i) xs)"
    by simp
  have "length (filter P xs)
      = length (filter P (take i xs)) + Suc (length (filter P (drop (Suc i) xs)))"
    using arg_cong [OF f, of length] by simp
  then show "length (filter P (take i xs)) < length (filter P xs)" by simp
  have "(filter P (take i xs) @ xs ! i # filter P (drop (Suc i) xs))
      ! length (filter P (take i xs)) = xs ! i"
    by (rule nth_append_length)
  with f show "filter P xs ! length (filter P (take i xs)) = xs ! i" by simp
qed

lemma sum_list_spans:
  "list_all (\<lambda>n. 1 \<le> n) xs \<Longrightarrow> length xs \<le> sum_list xs"
  by (induction xs) auto

lemma sum_list_single_lines:
  "list_all (\<lambda>n. n = 1) xs \<Longrightarrow> sum_list xs = length xs"
  by (induction xs) auto

lemma first_line_ge:
  assumes "Suc i \<le> length spans" and "list_all (\<lambda>n. 1 \<le> n) spans"
  shows "i + 2 \<le> first_line spans i"
proof -
  from assms(2) have "list_all (\<lambda>n. 1 \<le> n) (take (Suc i) spans)"
    by (auto simp add: list_all_iff dest: in_set_takeD)
  from sum_list_spans [OF this] have "length (take (Suc i) spans) \<le> sum_list (take (Suc i) spans)" .
  moreover from assms(1) have "length (take (Suc i) spans) = Suc i" by simp
  ultimately show ?thesis by (simp add: first_line_def)
qed

lemma first_line_single:
  assumes "Suc i \<le> length spans" and "list_all (\<lambda>n. n = 1) (take (Suc i) spans)"
  shows "first_line spans i = i + 2"
proof -
  from assms(1) have "length (take (Suc i) spans) = Suc i" by simp
  with sum_list_single_lines [OF assms(2)] show ?thesis by (simp add: first_line_def)
qed

lemma position_le: "i \<le> length data \<Longrightarrow> position h data i \<le> i"
  using length_filter_le [of "retained h" "take i data"] by (simp add: position_def)

lemma validate_rows_positions:
  "validate_rows skus (py_enumerate 2 rows) []
     = concat (map (\<lambda>k. validate_row (rows ! k) (int k + 2) skus) [0..<length rows])"
  by (simp add: validate_rows_eq py_enumerate_map [of 2 rows] comp_def add.commute)

text \<open>
  C9. Take a run that has read its config and its CSV file, with header \<open>h\<close> and records
  \<open>data\<close>. Its rows are the retained records in their order. If validation gives an error,
  what the run logs are the errors of \<^verbatim>\<open>validate_row\<close> for each position \<open>k\<close> under
  the number \<open>k + 2\<close>, and every such message starts with \<^verbatim>\<open>Row\<close> and that number and
  no other. If the run writes a summary, the result at the position \<open>k\<close> of its
  \<^verbatim>\<open>orders\<close> has the \<^verbatim>\<open>row\<close> \<open>k + 2\<close> and the email of the row at that position.
  A retained record \<open>i\<close> of the data is the row at the position that counts the retained
  records before it. Whatever number of lines the header and each record take, the number
  of that row is the number of the line on which the record starts only when every record
  before it is retained; and when all those are retained and none of them, nor the header,
  takes more than one line, the two numbers are equal.
\<close>

theorem run_numbers_rows_by_position:
  assumes "load_config (config_file w) = Inr c"
    and "getitem c ''skus'' = Inr sj"
    and "csv_file w = Inr (h # data)"
    and "read_orders_csv (csv_file w) sj = Inr rows"
  shows "rows = map (dict_row h) (filter (retained h) data)
    \<and> (concat (map (\<lambda>k. validate_row (rows ! k) (int k + 2) (str_items (arr_items sj)))
                  [0..<length rows]) \<noteq> [] \<longrightarrow>
         events (run w csv_path dry_run)
           = CsvOpened # map ErrorLogged
               (concat (map (\<lambda>k. validate_row (rows ! k) (int k + 2) (str_items (arr_items sj)))
                          [0..<length rows])))
    \<and> (\<forall>k < length rows.
          \<forall>e \<in> set (validate_row (rows ! k) (int k + 2) (str_items (arr_items sj))).
            \<forall>m. names_row m e \<longleftrightarrow> m = int k + 2)
    \<and> (\<forall>s os. SummaryWritten s \<in> set (events (run w csv_path dry_run)) \<longrightarrow>
          getitem s ''orders'' = Inr (JArr os) \<longrightarrow>
          length os = length rows
          \<and> (\<forall>k < length rows. result_of_row (int k + 2) (rows ! k) (os ! k)))
    \<and> (\<forall>i < length data. retained h (data ! i) \<longrightarrow>
          position h data i < length rows
          \<and> rows ! position h data i = dict_row h (data ! i)
          \<and> (\<forall>spans. length spans = Suc (length data) \<longrightarrow> list_all (\<lambda>n. 1 \<le> n) spans \<longrightarrow>
                (int (position h data i) + 2 = int (first_line spans i) \<longrightarrow>
                   (\<forall>j<i. retained h (data ! j)))
                \<and> ((\<forall>j<i. retained h (data ! j)) \<longrightarrow>
                     list_all (\<lambda>n. n = 1) (take (Suc i) spans) \<longrightarrow>
                     int (position h data i) + 2 = int (first_line spans i))))"
proof -
  let ?skus = "str_items (arr_items sj)"
  let ?errs = "concat (map (\<lambda>k. validate_row (rows ! k) (int k + 2) ?skus) [0..<length rows])"
  let ?st0 = "\<lparr>succeeded = 0, failed = 0, results = [], trace = [CsvOpened]\<rparr>"
  have rows: "rows = map (dict_row h) (filter (retained h) data)"
    using assms(4) unfolding assms(3) by (rule read_orders_csv_rows)
  from run_rows [OF assms(1,2,4), of csv_path dry_run] obtain tgs bu
    where run: "run w csv_path dry_run = process_rows w csv_path dry_run c ?skus tgs bu rows"
    by blast
  have errors: "?errs \<noteq> [] \<longrightarrow> events (run w csv_path dry_run) = CsvOpened # map ErrorLogged ?errs"
    unfolding run by (simp add: process_rows_def Let_def validate_rows_positions)
  have named: "\<forall>k < length rows. \<forall>e \<in> set (validate_row (rows ! k) (int k + 2) ?skus).
      \<forall>m. names_row m e \<longleftrightarrow> m = int k + 2"
    using validate_row_names_row by blast
  have summary: "\<forall>s os. SummaryWritten s \<in> set (events (run w csv_path dry_run)) \<longrightarrow>
          getitem s ''orders'' = Inr (JArr os) \<longrightarrow>
          length os = length rows
          \<and> (\<forall>k < length rows. result_of_row (int k + 2) (rows ! k) (os ! k))"
  proof (intro allI impI)
    fix s os
    assume ev: "SummaryWritten s \<in> set (events (run w csv_path dry_run))"
      and os: "getitem s ''orders'' = Inr (JArr os)"
    from summary_written_send [OF ev] obtain c' sj' tgs' bu' ak rows' st
      where c': "load_config (config_file w) = Inr c'" and sj': "getitem c' ''skus'' = Inr sj'"
        and rows': "read_orders_csv (csv_file w) sj' = Inr rows'"
        and so': "send_orders (net w) bu' ak (str_items (arr_items sj')) tgs'
            (py_enumerate 2 rows') ?st0 = (st, None)"
        and s': "s = JObj [(''run_at'', JStr (run_at w)), (''csv'', JStr csv_path),
                       (''total'', JInt (int (length rows'))),
                       (''succeeded'', JInt (int (succeeded st))),
                       (''failed'', JInt (int (failed st))),
                       (''orders'', JArr (results st))]"
      by blast
    from c' assms(1) have "c' = c" by simp
    with sj' assms(2) have "sj' = sj" by simp
    with rows' assms(4) have "rows' = rows" by simp
    from so' have so: "send_orders (net w) bu' ak ?skus tgs' (py_enumerate 2 rows) ?st0
        = (st, None)"
      unfolding \<open>sj' = sj\<close> \<open>rows' = rows\<close> .
    from s' have s: "s = JObj [(''run_at'', JStr (run_at w)), (''csv'', JStr csv_path),
                       (''total'', JInt (int (length rows))),
                       (''succeeded'', JInt (int (succeeded st))),
                       (''failed'', JInt (int (failed st))),
                       (''orders'', JArr (results st))]"
      unfolding \<open>rows' = rows\<close> .
    from os have o: "os = results st" unfolding s by (simp add: dict_lookup_def)
    from send_orders_loop_ok [OF so] have len: "length (results st) = length rows"
      by (auto simp add: loop_ok_def)
    from send_orders_results [OF so] obtain new where "results st = new"
      and "\<forall>k < length new. result_of_row (2 + int k) (rows ! k) (new ! k)"
      by auto
    with len
    have "\<forall>k < length rows. result_of_row (2 + int k) (rows ! k) (results st ! k)"
      by simp
    with o len
    show "length os = length rows
        \<and> (\<forall>k < length rows. result_of_row (int k + 2) (rows ! k) (os ! k))"
      by (simp add: add.commute)
  qed
  have lines: "\<forall>i < length data. retained h (data ! i) \<longrightarrow>
          position h data i < length rows
          \<and> rows ! position h data i = dict_row h (data ! i)
          \<and> (\<forall>spans. length spans = Suc (length data) \<longrightarrow> list_all (\<lambda>n. 1 \<le> n) spans \<longrightarrow>
                (int (position h data i) + 2 = int (first_line spans i) \<longrightarrow>
                   (\<forall>j<i. retained h (data ! j)))
                \<and> ((\<forall>j<i. retained h (data ! j)) \<longrightarrow>
                     list_all (\<lambda>n. n = 1) (take (Suc i) spans) \<longrightarrow>
                     int (position h data i) + 2 = int (first_line spans i)))"
  proof (intro allI impI)
    fix i assume i: "i < length data" and r: "retained h (data ! i)"
    from filter_nth_position [OF i, of "retained h"] r
    have k: "position h data i < length (filter (retained h) data)"
      and n: "filter (retained h) data ! position h data i = data ! i"
      by (simp_all add: position_def)
    from i have all: "(position h data i = i) = (\<forall>j<i. retained h (data ! j))"
      by (simp add: filter_take_length position_def)
    from i have le: "position h data i \<le> i" by (simp add: position_le)
    have sp: "\<forall>spans. length spans = Suc (length data) \<longrightarrow> list_all (\<lambda>n. 1 \<le> n) spans \<longrightarrow>
                (int (position h data i) + 2 = int (first_line spans i) \<longrightarrow>
                   (\<forall>j<i. retained h (data ! j)))
                \<and> ((\<forall>j<i. retained h (data ! j)) \<longrightarrow>
                     list_all (\<lambda>n. n = 1) (take (Suc i) spans) \<longrightarrow>
                     int (position h data i) + 2 = int (first_line spans i))"
    proof (rule allI, rule impI, rule impI, rule conjI)
      fix spans :: "nat list"
      assume l: "length spans = Suc (length data)" and p: "list_all (\<lambda>n. 1 \<le> n) spans"
      from l i have s: "Suc i \<le> length spans" by simp
      show "int (position h data i) + 2 = int (first_line spans i) \<longrightarrow>
          (\<forall>j<i. retained h (data ! j))"
      proof (rule impI)
        assume e: "int (position h data i) + 2 = int (first_line spans i)"
        from first_line_ge [OF s p] have "i + 2 \<le> first_line spans i" .
        with e le have "position h data i = i" by linarith
        with all show "\<forall>j<i. retained h (data ! j)" by simp
      qed
      show "(\<forall>j<i. retained h (data ! j)) \<longrightarrow>
          list_all (\<lambda>n. n = 1) (take (Suc i) spans) \<longrightarrow>
          int (position h data i) + 2 = int (first_line spans i)"
      proof (rule impI, rule impI)
        assume a: "\<forall>j<i. retained h (data ! j)"
          and o: "list_all (\<lambda>n. n = 1) (take (Suc i) spans)"
        from first_line_single [OF s o] have "first_line spans i = i + 2" .
        moreover from a all have "position h data i = i" by simp
        ultimately show "int (position h data i) + 2 = int (first_line spans i)" by simp
      qed
    qed
    from k rows have a: "position h data i < length rows" by simp
    from k n rows have b: "rows ! position h data i = dict_row h (data ! i)" by simp
    from a b sp
    show "position h data i < length rows
          \<and> rows ! position h data i = dict_row h (data ! i)
          \<and> (\<forall>spans. length spans = Suc (length data) \<longrightarrow> list_all (\<lambda>n. 1 \<le> n) spans \<longrightarrow>
                (int (position h data i) + 2 = int (first_line spans i) \<longrightarrow>
                   (\<forall>j<i. retained h (data ! j)))
                \<and> ((\<forall>j<i. retained h (data ! j)) \<longrightarrow>
                     list_all (\<lambda>n. n = 1) (take (Suc i) spans) \<longrightarrow>
                     int (position h data i) + 2 = int (first_line spans i)))"
      by (intro conjI)
  qed
  from rows errors named summary lines show ?thesis by (intro conjI)
qed

subsection \<open>The order id of a success\<close>







subsection \<open>The example runs\<close>

lemma ex_load: "load_config (Inr (ex_config ex_skus)) = Inr (ex_config ex_skus)"
  using ex_config_acceptable by (rule load_config_acceptable)

lemma ex_items:
  "getitem (ex_config ex_skus) ''skus'' = Inr (JArr (map JStr ex_skus))"
  "getitem (ex_config ex_skus) ''tags'' = Inr ex_tags"
  "getitem (ex_config ex_skus) ''theseus_base_url'' = Inr (JStr ''https://mail.example/'')"
  "getitem (ex_config ex_skus) ''api_key'' = Inr (JStr ''secret'')"
  by (simp_all add: ex_config_def dict_lookup_def ex_tags_def)

lemma str_items_map: "str_items (map JStr xs) = xs"
  by (induction xs) simp_all

lemma ex_retained:
  "retained ex_headers (ex_line ''a@x.org'' ''Stowe'' ''3'' [])"
  "\<not> retained ex_headers (ex_line '' '' ''Stowe'' ''5'' [])"
  "retained ex_headers (ex_line ''b@x.org'' ''Stowe'' ''1'' ''2'')"
  by (simp_all add: retained_def ex_headers_def ex_simps)

lemma ex_read:
  "read_orders_csv (Inr (ex_headers # ex_data)) (JArr (map JStr ex_skus)) = Inr ex_rows"
proof -
  have "filter (\<lambda>c. c \<notin> set (map JStr ex_headers)) (map JStr ADDRESS_COLUMNS @ map JStr ex_skus) = []"
    by (simp add: ex_headers_def filter_empty_conv)
  then show ?thesis
    by (simp add: read_orders_csv_def thenE_def ex_data_def ex_retained [unfolded ex_headers_def]
        ex_rows_def ex_row_def ex_headers_def Let_def)
qed

lemma ex_valid:
  "validate_row (ex_row ''a@x.org'' ''Stowe'' ''3'' []) 2 ex_skus = []"
  "validate_row (ex_row ''b@x.org'' ''Stowe'' ''1'' ''2'') 3 ex_skus = []"
  by (simp_all add: validate_row_eq ex_simps)

lemma ex_valid_all: "validate_rows ex_skus (py_enumerate 2 ex_rows) [] = []"
  by (simp add: ex_rows_def ex_valid)

lemma ex_length: "length ex_rows = 2"
  by (simp add: ex_rows_def)

lemma ex_builds:
  "build_order_payload (ex_row ''a@x.org'' ''Stowe'' ''3'' []) ex_skus ex_tags = Inr ex_payload_a"
  "build_order_payload (ex_row ''b@x.org'' ''Stowe'' ''1'' ''2'') ex_skus ex_tags = Inr ex_payload_b"
  by (simp_all add: ex_simps build_simps ex_payload_a_def ex_payload_b_def ex_tags_def)

lemma ex_emails:
  "item_strip (ex_row ''a@x.org'' ''Stowe'' ''3'' []) ''email'' = Inr ''a@x.org''"
  "item_strip (ex_row ''b@x.org'' ''Stowe'' ''1'' ''2'') ''email'' = Inr ''b@x.org''"
  by (simp_all add: ex_simps item_strip_def)

lemma ex_send:
  "send_orders ex_net (JStr ''https://mail.example/'') (JStr ''secret'') ex_skus ex_tags
     (py_enumerate 2 ex_rows) \<lparr>succeeded = 0, failed = 0, results = [], trace = [CsvOpened]\<rparr>
   = (\<lparr>succeeded = 1, failed = 1, results = ex_results,
       trace = [CsvOpened, OrderPosted 2 (JStr ''secret'') ex_payload_a,
                OrderPosted 3 (JStr ''secret'') ex_payload_b]\<rparr>, None)"
  by (simp add: ex_rows_def send_order_def ex_builds ex_emails create_order_def ex_net_def
      order_id_of_def thenE_def dict_lookup_def record_success_def record_failure_def
      error_body_of_def ex_results_def)

lemma ex_run:
  "run (ex_world (ex_config ex_skus) ex_data ex_net) ''orders.csv'' False
     = \<lparr>events = [CsvOpened, OrderPosted 2 (JStr ''secret'') ex_payload_a,
                   OrderPosted 3 (JStr ''secret'') ex_payload_b, SummaryWritten ex_summary],
        ended = Some (send_failure 1)\<rparr>"
  by (simp add: run_def ex_world_def ex_load ex_items thenE_def ex_read [unfolded ex_headers_def]
      str_items_map process_rows_def ex_valid_all ex_length send_phase_def ex_send
      ex_summary_def)


lemma ex_mixed_run:
  "run ex_mixed ''orders.csv'' False
     = \<lparr>events = [CsvOpened, OrderPosted 2 (JStr ''secret'') ex_payload_a,
                   OrderPosted 3 (JStr ''secret'') ex_payload_b, SummaryWritten ex_summary],
        ended = Some (send_failure 1)\<rparr>"
  unfolding ex_mixed_def by (rule ex_run)

lemma ex_mixed_files:
  "load_config (config_file ex_mixed) = Inr (ex_config ex_skus)"
  "read_orders_csv (csv_file ex_mixed) (JArr (map JStr ex_skus)) = Inr ex_rows"
  "net ex_mixed = ex_net"
  by (simp_all add: ex_mixed_def ex_world_def ex_load ex_read [unfolded ex_headers_def])

lemma ex_summary_items:
  "getitem ex_summary ''total'' = Inr (JInt 2)"
  "getitem ex_summary ''succeeded'' = Inr (JInt 1)"
  "getitem ex_summary ''failed'' = Inr (JInt 1)"
  "getitem ex_summary ''orders'' = Inr (JArr ex_results)"
  by (simp_all add: ex_summary_def dict_lookup_def)

lemma ex_headers_ok:
  "filter (\<lambda>c. c \<notin> set (map JStr (ADDRESS_COLUMNS @ ex_skus)))
     (map JStr ADDRESS_COLUMNS @ map JStr ex_skus) = []"
  by (simp add: filter_empty_conv)

lemma ex_blank_city_config:
  "load_config (config_file ex_blank_city) = Inr (ex_config ex_skus)"
  by (simp add: ex_blank_city_def ex_world_def ex_load)

lemma ex_blank_city_csv:
  "read_orders_csv (csv_file ex_blank_city) (JArr (map JStr ex_skus)) = Inr ex_rows_blank_city"
  using ex_headers_ok
  by (simp add: ex_blank_city_def ex_world_def read_orders_csv_def thenE_def
      retained_def ex_simps ex_rows_blank_city_def)

lemmas ex_blank_city_files = ex_blank_city_config ex_blank_city_csv

lemma ex_blank_city_errors:
  "validate_row (ex_row ''b@x.org'' '' '' ''1'' ''2'') 3 ex_skus = [missing_msg 3 ''city'']"
  by (simp add: validate_row_eq ex_simps)

lemma ex_blank_city_all:
  "validate_rows ex_skus (py_enumerate 2 ex_rows_blank_city) [] = [missing_msg 3 ''city'']"
  by (simp add: ex_rows_blank_city_def ex_blank_city_errors ex_valid)

lemma ex_mixed_builds: "list_all (builds ex_skus ex_tags) ex_rows"
  by (simp add: builds_def ex_rows_def ex_builds)

lemma ex_net_recoverable: "\<forall>k url p. recoverable (ex_net k url (JStr ''secret'') p)"
  by (simp add: ex_net_def)

lemma ex_data_nth:
  "ex_data ! 1 = ex_line '' '' ''Stowe'' ''5'' []"
  "ex_data ! 2 = ex_line ''b@x.org'' ''Stowe'' ''1'' ''2''"
  "length ex_data = 3"
  by (simp_all add: ex_data_def)

lemma ex_data_before: "length (filter (retained ex_headers) (take 2 ex_data)) = 1"
  by (simp add: ex_data_def ex_retained numeral_2_eq_2)

lemma ex_mixed_csv: "csv_file ex_mixed = Inr (ex_headers # ex_data)"
  by (simp add: ex_mixed_def ex_world_def ex_headers_def)

lemma ex_skipped_blank_city_files:
  "load_config (config_file ex_skipped_blank_city) = Inr (ex_config ex_skus)"
  "csv_file ex_skipped_blank_city
     = Inr (ex_headers # [ex_line ''a@x.org'' ''Stowe'' ''3'' [], ex_line '' '' ''Stowe'' ''5'' [],
                          ex_line ''b@x.org'' '' '' ''1'' ''2''])"
  by (simp_all add: ex_skipped_blank_city_def ex_world_def ex_load ex_headers_def)

lemma ex_skipped_blank_city_csv:
  "read_orders_csv (csv_file ex_skipped_blank_city) (JArr (map JStr ex_skus))
     = Inr ex_rows_blank_city"
  using ex_headers_ok
  by (simp add: ex_skipped_blank_city_def ex_world_def read_orders_csv_def thenE_def
      retained_def ex_simps ex_rows_blank_city_def)

lemma ex_results_second:
  "ex_rows ! 1 = ex_row ''b@x.org'' ''Stowe'' ''1'' ''2''"
  "ex_results ! 1 = http_failure_result 3 ''b@x.org'' 422 (JObj [(''error'', JStr ''bad address'')])"
  by (simp_all add: ex_rows_def ex_results_def)

subsection \<open>The properties on the example runs\<close>

theorem validation_errors_abort_run_witness:
  "load_config (config_file ex_blank_city) = Inr (ex_config ex_skus)
   \<and> getitem (ex_config ex_skus) ''skus'' = Inr (JArr (map JStr ex_skus))
   \<and> read_orders_csv (csv_file ex_blank_city) (JArr (map JStr ex_skus)) = Inr ex_rows_blank_city
   \<and> (3, ex_row ''b@x.org'' '' '' ''1'' ''2'') \<in> set (py_enumerate 2 ex_rows_blank_city)
   \<and> validate_row (ex_row ''b@x.org'' '' '' ''1'' ''2'') 3 ex_skus = [missing_msg 3 ''city'']
   \<and> events (run ex_blank_city ''orders.csv'' False)
        = [CsvOpened, ErrorLogged (missing_msg 3 ''city'')]
   \<and> ended (run ex_blank_city ''orders.csv'' False)
        = Some (validation_failure [missing_msg 3 ''city''])
   \<and> exit_status (run ex_blank_city ''orders.csv'' False) = 1
   \<and> filter is_post (events (run ex_blank_city ''orders.csv'' False)) = []"
proof -
  have m: "(3, ex_row ''b@x.org'' '' '' ''1'' ''2'') \<in> set (py_enumerate 2 ex_rows_blank_city)"
    by (simp add: ex_rows_blank_city_def)
  have e: "validate_row (ex_row ''b@x.org'' '' '' ''1'' ''2'') 3
      (str_items (arr_items (JArr (map JStr ex_skus)))) \<noteq> []"
    by (simp add: str_items_map ex_blank_city_errors)
  from validation_errors_abort_run
    [OF ex_blank_city_config ex_items(1) ex_blank_city_csv m e, of "''orders.csv''" False]
    ex_blank_city_files ex_items(1) m ex_blank_city_errors ex_blank_city_all
  show ?thesis by (simp add: str_items_map)
qed

theorem run_summary_counts_witness:
  "SummaryWritten ex_summary \<in> set (events (run ex_mixed ''orders.csv'' False))
   \<and> getitem ex_summary ''total'' = Inr (JInt 2)
   \<and> getitem ex_summary ''succeeded'' = Inr (JInt 1)
   \<and> getitem ex_summary ''failed'' = Inr (JInt 1)
   \<and> getitem ex_summary ''orders'' = Inr (JArr ex_results)
   \<and> length ex_results = 2
   \<and> (\<exists>c sj rows n_ok n_failed os.
         load_config (config_file ex_mixed) = Inr c \<and> getitem c ''skus'' = Inr sj
         \<and> read_orders_csv (csv_file ex_mixed) sj = Inr rows
         \<and> getitem ex_summary ''total'' = Inr (JInt (int (length rows)))
         \<and> getitem ex_summary ''succeeded'' = Inr (JInt (int n_ok))
         \<and> getitem ex_summary ''failed'' = Inr (JInt (int n_failed))
         \<and> getitem ex_summary ''orders'' = Inr (JArr os)
         \<and> n_ok + n_failed = length rows \<and> length os = length rows)"
proof -
  have h: "SummaryWritten ex_summary \<in> set (events (run ex_mixed ''orders.csv'' False))"
    by (simp add: ex_mixed_run)
  have l: "length ex_results = 2" by (simp add: ex_results_def)
  from run_summary_counts [OF h] h l ex_summary_items show ?thesis by simp
qed

theorem run_numbers_rows_by_position_witness:
  "load_config (config_file ex_mixed) = Inr (ex_config ex_skus)
   \<and> getitem (ex_config ex_skus) ''skus'' = Inr (JArr (map JStr ex_skus))
   \<and> csv_file ex_mixed = Inr (ex_headers # ex_data)
   \<and> read_orders_csv (csv_file ex_mixed) (JArr (map JStr ex_skus)) = Inr ex_rows
   \<and> SummaryWritten ex_summary \<in> set (events (run ex_mixed ''orders.csv'' False))
   \<and> getitem ex_summary ''orders'' = Inr (JArr ex_results)
   \<and> retained ex_headers (ex_data ! 2)
   \<and> \<not> retained ex_headers (ex_data ! 1)
   \<and> position ex_headers ex_data 2 = 1
   \<and> first_line [1, 1, 1, 1] 2 = 4
   \<and> int (position ex_headers ex_data 2) + 2 \<noteq> int (first_line [1, 1, 1, 1] 2)
   \<and> int (position ex_headers ex_data 0) + 2 = int (first_line [1, 1, 1, 1] 0)
   \<and> ex_rows ! 1 = dict_row ex_headers (ex_data ! 2)
   \<and> item_strip (ex_rows ! 1) ''email'' = Inr ''b@x.org''
   \<and> result_of_row 3 (ex_rows ! 1) (ex_results ! 1)
   \<and> getitem (ex_results ! 1) ''row'' = Inr (JInt 3)
   \<and> getitem (ex_results ! 1) ''email'' = Inr (JStr ''b@x.org'')
   \<and> load_config (config_file ex_skipped_blank_city) = Inr (ex_config ex_skus)
   \<and> read_orders_csv (csv_file ex_skipped_blank_city) (JArr (map JStr ex_skus))
       = Inr ex_rows_blank_city
   \<and> events (run ex_skipped_blank_city ''orders.csv'' False)
       = [CsvOpened,
          ErrorLogged (''Row 3: missing required field '' @ [CHR 0x27] @ ''city'' @ [CHR 0x27])]"
proof -
  note t = run_numbers_rows_by_position
    [OF ex_mixed_files(1) ex_items(1) ex_mixed_csv ex_mixed_files(2), of "''orders.csv''" False]
  note u = run_numbers_rows_by_position
    [OF ex_skipped_blank_city_files(1) ex_items(1) ex_skipped_blank_city_files(2)
        ex_skipped_blank_city_csv, of "''orders.csv''" False]
  have h: "SummaryWritten ex_summary \<in> set (events (run ex_mixed ''orders.csv'' False))"
    by (simp add: ex_mixed_run)
  have r2: "retained ex_headers (ex_data ! 2)" and r1: "\<not> retained ex_headers (ex_data ! 1)"
    by (simp_all add: ex_data_def ex_retained)
  have p: "position ex_headers ex_data 2 = 1"
    by (simp add: position_def ex_data_before)
  have f: "first_line [1, 1, 1, 1] 2 = 4"
    by (simp add: first_line_def)
  have e: "item_strip (ex_rows ! 1) ''email'' = Inr ''b@x.org''"
    unfolding ex_results_second by (rule ex_emails(2))
  from t have "\<forall>s os. SummaryWritten s \<in> set (events (run ex_mixed ''orders.csv'' False)) \<longrightarrow>
      getitem s ''orders'' = Inr (JArr os) \<longrightarrow>
      length os = length ex_rows
      \<and> (\<forall>k < length ex_rows. result_of_row (int k + 2) (ex_rows ! k) (os ! k))"
    by blast
  with h ex_summary_items(4)
  have "\<forall>k < length ex_rows. result_of_row (int k + 2) (ex_rows ! k) (ex_results ! k)"
    by blast
  then have "1 < length ex_rows \<longrightarrow> result_of_row (int 1 + 2) (ex_rows ! 1) (ex_results ! 1)"
    by (rule spec)
  then have res: "result_of_row 3 (ex_rows ! 1) (ex_results ! 1)"
    by (simp add: ex_length)
  then have row: "getitem (ex_results ! 1) ''row'' = Inr (JInt 3)"
    and email: "getitem (ex_results ! 1) ''email'' = Inr (JStr ''b@x.org'')"
    using e by (simp_all add: result_of_row_def)
  from t have every: "\<forall>i < length ex_data. retained ex_headers (ex_data ! i) \<longrightarrow>
      position ex_headers ex_data i < length ex_rows
      \<and> ex_rows ! position ex_headers ex_data i = dict_row ex_headers (ex_data ! i)
      \<and> (\<forall>spans. length spans = Suc (length ex_data) \<longrightarrow> list_all (\<lambda>n. 1 \<le> n) spans \<longrightarrow>
            (int (position ex_headers ex_data i) + 2 = int (first_line spans i) \<longrightarrow>
               (\<forall>j<i. retained ex_headers (ex_data ! j)))
            \<and> ((\<forall>j<i. retained ex_headers (ex_data ! j)) \<longrightarrow>
                 list_all (\<lambda>n. n = 1) (take (Suc i) spans) \<longrightarrow>
                 int (position ex_headers ex_data i) + 2 = int (first_line spans i)))"
    by (elim conjE)
  have l2: "2 < length ex_data" and l0: "0 < length ex_data"
    and ls: "length [1, 1, 1, 1::nat] = Suc (length ex_data)"
    by (simp_all add: ex_data_nth(3))
  have la: "list_all (\<lambda>n. 1 \<le> n) [1, 1, 1, 1::nat]"
    and l1: "list_all (\<lambda>n. n = 1) (take (Suc 0) [1, 1, 1, 1::nat])"
    by simp_all
  have r0: "retained ex_headers (ex_data ! 0)"
    by (simp add: ex_data_def ex_retained)
  note at2 = every [THEN spec, of 2, THEN mp, OF l2, THEN mp, OF r2]
  note at0 = every [THEN spec, of 0, THEN mp, OF l0, THEN mp, OF r0]
  note lines2 = at2 [THEN conjunct2, THEN conjunct2, THEN spec, of "[1, 1, 1, 1]",
      THEN mp, OF ls, THEN mp, OF la]
  note lines0 = at0 [THEN conjunct2, THEN conjunct2, THEN spec, of "[1, 1, 1, 1]",
      THEN mp, OF ls, THEN mp, OF la]
  have ne: "int (position ex_headers ex_data 2) + 2 \<noteq> int (first_line [1, 1, 1, 1] 2)"
  proof
    assume "int (position ex_headers ex_data 2) + 2 = int (first_line [1, 1, 1, 1] 2)"
    with lines2 [THEN conjunct1] have "\<forall>j<2. retained ex_headers (ex_data ! j)" by (rule mp)
    then have "1 < (2::nat) \<longrightarrow> retained ex_headers (ex_data ! 1)" by (rule spec)
    with r1 show False by simp
  qed
  have "\<forall>j<0. retained ex_headers (ex_data ! j)" by simp
  from lines0 [THEN conjunct2, THEN mp, OF this, THEN mp, OF l1]
  have eq0: "int (position ex_headers ex_data 0) + 2 = int (first_line [1, 1, 1, 1] 0)" .
  from at2 [THEN conjunct2, THEN conjunct1]
  have "ex_rows ! position ex_headers ex_data 2 = dict_row ex_headers (ex_data ! 2)" .
  then have d: "ex_rows ! 1 = dict_row ex_headers (ex_data ! 2)"
    by (simp add: p)
  have v: "concat (map (\<lambda>k. validate_row (ex_rows_blank_city ! k) (int k + 2)
        (str_items (arr_items (JArr (map JStr ex_skus))))) [0..<length ex_rows_blank_city])
      = [missing_msg 3 ''city'']"
    using validate_rows_positions [of ex_skus ex_rows_blank_city]
    by (simp add: str_items_map ex_blank_city_all)
  from u have "concat (map (\<lambda>k. validate_row (ex_rows_blank_city ! k) (int k + 2)
        (str_items (arr_items (JArr (map JStr ex_skus))))) [0..<length ex_rows_blank_city])
        \<noteq> [] \<longrightarrow>
      events (run ex_skipped_blank_city ''orders.csv'' False)
        = CsvOpened # map ErrorLogged
            (concat (map (\<lambda>k. validate_row (ex_rows_blank_city ! k) (int k + 2)
               (str_items (arr_items (JArr (map JStr ex_skus)))))
               [0..<length ex_rows_blank_city]))"
    by blast
  then have ev: "events (run ex_skipped_blank_city ''orders.csv'' False)
       = [CsvOpened,
          ErrorLogged (''Row 3: missing required field '' @ [CHR 0x27] @ ''city'' @ [CHR 0x27])]"
    unfolding v by (simp add: missing_msg_3_city)
  from ex_mixed_files(1) ex_items(1) ex_mixed_csv ex_mixed_files(2) h ex_summary_items(4)
    r2 r1 p f ne eq0 d e res row email ex_skipped_blank_city_files(1) ex_skipped_blank_city_csv ev
  show ?thesis by (intro conjI)
qed




subsection \<open>A validated row whose payload cannot be built\<close>

lemma ex_blank_quantity_config:
  "load_config (config_file ex_blank_quantity) = Inr (ex_config ex_skus)"
  "net ex_blank_quantity = ex_net"
  by (simp_all add: ex_blank_quantity_def ex_world_def ex_load)

lemma ex_blank_quantity_csv:
  "read_orders_csv (csv_file ex_blank_quantity) (JArr (map JStr ex_skus))
     = Inr ex_rows_blank_quantity"
  using ex_headers_ok
  by (simp add: ex_blank_quantity_def ex_world_def read_orders_csv_def thenE_def
      retained_def ex_simps ex_rows_blank_quantity_def)

lemmas ex_blank_quantity_files = ex_blank_quantity_config ex_blank_quantity_csv

lemma ex_blank_quantity_valid:
  "validate_row (ex_row ''b@x.org'' ''Stowe'' ''1'' ''2'') 2 ex_skus = []"
  "validate_row (ex_row ''a@x.org'' ''Stowe'' ''3'' '' '') 3 ex_skus = []"
  by (simp_all add: validate_row_eq ex_simps)

lemma ex_blank_quantity_build:
  "build_order_payload (ex_row ''a@x.org'' ''Stowe'' ''3'' '' '') ex_skus ex_tags = Inl ValueError"
  by (simp add: ex_simps build_simps)

lemma ex_blank_quantity_email:
  "item_strip (ex_row ''a@x.org'' ''Stowe'' ''3'' '' '') ''email'' = Inr ''a@x.org''"
  by (simp add: ex_simps item_strip_def)

lemma ex_blank_quantity_send:
  "send_orders ex_net (JStr ''https://mail.example/'') (JStr ''secret'') ex_skus ex_tags
     (py_enumerate 2 ex_rows_blank_quantity) ex_state
   = (\<lparr>succeeded = 1, failed = 0,
       results = [success_result 2 ''b@x.org'' (JStr ''ord_1'') (JObj [(''id'', JStr ''ord_1'')])],
       trace = [CsvOpened, OrderPosted 2 (JStr ''secret'') ex_payload_b]\<rparr>, Some ValueError)"
  by (simp add: ex_rows_blank_quantity_def ex_state_def send_order_def ex_builds ex_emails
      ex_blank_quantity_build ex_blank_quantity_email create_order_def ex_net_def
      order_id_of_def thenE_def dict_lookup_def record_success_def)

text \<open>
  C1 fails on the code. A row with every required field, the quantity 3 in the first SKU
  column and a single space in the second passes validation, which trims the cell before
  it looks at it; \<^verbatim>\<open>build_order_payload\<close> hands the untrimmed cell to \<^verbatim>\<open>int\<close>,
  which raises \<^verbatim>\<open>ValueError\<close>. In a run whose CSV file has this row after a good one,
  the order of the good row is posted and then the run ends with the \<^verbatim>\<open>ValueError\<close>,
  without a summary.
\<close>

theorem build_order_payload_raises_after_validation:
  "validate_row (ex_row ''a@x.org'' ''Stowe'' ''3'' '' '') 3 ex_skus = []
   \<and> build_order_payload (ex_row ''a@x.org'' ''Stowe'' ''3'' '' '') ex_skus ex_tags
       = Inl ValueError
   \<and> run ex_blank_quantity ''orders.csv'' False
       = \<lparr>events = [CsvOpened, OrderPosted 2 (JStr ''secret'') ex_payload_b],
          ended = Some ValueError\<rparr>"
proof -
  have v: "validate_rows ex_skus (py_enumerate 2 ex_rows_blank_quantity) [] = []"
    by (simp add: ex_rows_blank_quantity_def ex_blank_quantity_valid)
  have r: "run ex_blank_quantity ''orders.csv'' False
       = \<lparr>events = [CsvOpened, OrderPosted 2 (JStr ''secret'') ex_payload_b],
          ended = Some ValueError\<rparr>"
    using ex_blank_quantity_send [unfolded ex_state_def]
    by (simp add: run_def ex_blank_quantity_files ex_items thenE_def str_items_map
        process_rows_def v send_phase_def)
  from ex_blank_quantity_valid(2) ex_blank_quantity_build r show ?thesis by (intro conjI)
qed

subsection \<open>A request that the server does not answer\<close>

lemma ex_timeout_files:
  "load_config (config_file ex_timeout) = Inr (ex_config ex_skus)"
  "read_orders_csv (csv_file ex_timeout) (JArr (map JStr ex_skus)) = Inr ex_rows"
  "load_config (config_file ex_refused) = Inr (ex_config ex_skus)"
  "read_orders_csv (csv_file ex_refused) (JArr (map JStr ex_skus)) = Inr ex_rows"
  by (simp_all add: ex_timeout_def ex_refused_def ex_world_def ex_load
      ex_read [unfolded ex_headers_def])

lemma ex_timeout_send:
  "send_orders ex_net_timeout (JStr ''https://mail.example/'') (JStr ''secret'') ex_skus ex_tags
     (py_enumerate 2 ex_rows) \<lparr>succeeded = 0, failed = 0, results = [], trace = [CsvOpened]\<rparr>
   = (\<lparr>succeeded = 0, failed = 0, results = [],
       trace = [CsvOpened, OrderPosted 2 (JStr ''secret'') ex_payload_a]\<rparr>, Some TimeoutError)"
  by (simp add: ex_rows_def send_order_def ex_builds ex_emails create_order_def
      ex_net_timeout_def)

lemma ex_refused_send:
  "send_orders ex_net_refused (JStr ''https://mail.example/'') (JStr ''secret'') ex_skus ex_tags
     (py_enumerate 2 ex_rows) \<lparr>succeeded = 0, failed = 0, results = [], trace = [CsvOpened]\<rparr>
   = (\<lparr>succeeded = 1, failed = 1, results = ex_results_refused,
       trace = [CsvOpened, OrderPosted 2 (JStr ''secret'') ex_payload_a,
                OrderPosted 3 (JStr ''secret'') ex_payload_b]\<rparr>, None)"
  by (simp add: ex_rows_def send_order_def ex_builds ex_emails create_order_def
      ex_net_refused_def order_id_of_def thenE_def dict_lookup_def record_success_def
      record_failure_def ex_results_refused_def)

text \<open>
  C4 fails on the code. The send loop catches \<^verbatim>\<open>HTTPError\<close> and \<^verbatim>\<open>URLError\<close>, and
  \<^verbatim>\<open>urlopen\<close> raises \<^verbatim>\<open>URLError\<close> only for what goes wrong while it connects and
  sends. In a run with two valid rows whose server takes the first request and does not
  answer it in time, \<^verbatim>\<open>create_order\<close> raises \<^verbatim>\<open>TimeoutError\<close>, which leaves the
  loop: the run ends with it, nothing is posted for the second row, and no summary is
  written. The two failures that the loop catches do what the claim says, on the same
  rows: when the connection of the first request is refused, which comes as
  \<^verbatim>\<open>URLError\<close>, and when the second request is rejected with the status 422, the
  failure is recorded, both rows are sent, the summary is written, and the run ends with
  the failure of one order.
\<close>

theorem read_timeout_aborts_send_loop:
  "read_orders_csv (csv_file ex_timeout) (JArr (map JStr ex_skus)) = Inr ex_rows
   \<and> length ex_rows = 2
   \<and> validate_rows ex_skus (py_enumerate 2 ex_rows) [] = []
   \<and> list_all (builds ex_skus ex_tags) ex_rows
   \<and> run ex_timeout ''orders.csv'' False
       = \<lparr>events = [CsvOpened, OrderPosted 2 (JStr ''secret'') ex_payload_a],
          ended = Some TimeoutError\<rparr>
   \<and> run ex_refused ''orders.csv'' False
       = \<lparr>events = [CsvOpened, OrderPosted 2 (JStr ''secret'') ex_payload_a,
                     OrderPosted 3 (JStr ''secret'') ex_payload_b,
                     SummaryWritten ex_summary_refused],
          ended = Some (send_failure 1)\<rparr>
   \<and> run ex_mixed ''orders.csv'' False
       = \<lparr>events = [CsvOpened, OrderPosted 2 (JStr ''secret'') ex_payload_a,
                     OrderPosted 3 (JStr ''secret'') ex_payload_b, SummaryWritten ex_summary],
          ended = Some (send_failure 1)\<rparr>
   \<and> getitem ex_summary_refused ''orders'' = Inr (JArr ex_results_refused)
   \<and> getitem (ex_results_refused ! 0) ''status'' = Inr (JStr ''failed'')
   \<and> getitem (ex_results ! 1) ''status'' = Inr (JStr ''failed'')"
proof -
  have t: "run ex_timeout ''orders.csv'' False
       = \<lparr>events = [CsvOpened, OrderPosted 2 (JStr ''secret'') ex_payload_a],
          ended = Some TimeoutError\<rparr>"
    by (simp add: run_def ex_timeout_files ex_items thenE_def str_items_map process_rows_def
        ex_valid_all send_phase_def ex_timeout_send ex_timeout_def ex_world_def
        ex_load ex_read [unfolded ex_headers_def])
  have r: "run ex_refused ''orders.csv'' False
       = \<lparr>events = [CsvOpened, OrderPosted 2 (JStr ''secret'') ex_payload_a,
                     OrderPosted 3 (JStr ''secret'') ex_payload_b,
                     SummaryWritten ex_summary_refused],
          ended = Some (send_failure 1)\<rparr>"
    by (simp add: run_def ex_items thenE_def str_items_map process_rows_def
        ex_valid_all ex_length send_phase_def ex_refused_send ex_refused_def ex_world_def
        ex_load ex_read [unfolded ex_headers_def] ex_summary_refused_def)
  have o: "getitem ex_summary_refused ''orders'' = Inr (JArr ex_results_refused)"
    by (simp add: ex_summary_refused_def dict_lookup_def)
  have f: "getitem (ex_results_refused ! 0) ''status'' = Inr (JStr ''failed'')"
    by (simp add: ex_results_refused_def url_failure_result_items)
  have g: "getitem (ex_results ! 1) ''status'' = Inr (JStr ''failed'')"
    unfolding ex_results_second by (rule http_failure_result_items)
  from ex_timeout_files(2) ex_length ex_valid_all ex_mixed_builds t r ex_mixed_run o f g
  show ?thesis by (intro conjI)
qed

end
